theory Spec2Isabelle
  imports Complex_Main "HOL-Library.Word" "HOL-Library.Monad_Syntax" "HOL-Library.Log_Nat"
begin

unbundle bit_operations_syntax

section \<open>JavaScript numbers\<close>

text \<open>
  The engine is TypeScript on top of the browser's Web Audio API. Times, offsets, gains and
  sample values are JavaScript numbers, that is IEEE 754 binary64 values. A number is
  modelled by the \<^typ>\<open>real\<close> it denotes, and every \<^verbatim>\<open>+\<close>, \<^verbatim>\<open>-\<close>, \<^verbatim>\<open>*\<close> and
  \<^verbatim>\<open>/\<close> of the source is the exact operation followed by \<open>fl\<close>, the rounding to the
  nearest binary64 value with ties to the even significand: 53 bits of significand, spaced
  \<open>2 ^ (e - 52)\<close> apart in the binade \<open>[2 ^ e, 2 ^ (e + 1))\<close>, and \<open>2 ^ - 1074\<close> apart
  below \<open>2 ^ - 1022\<close>. A literal such as \<^verbatim>\<open>0.05\<close> is \<open>fl (5 / 100)\<close>. Comparisons,
  \<^verbatim>\<open>Math.max\<close>, \<^verbatim>\<open>Math.min\<close> and \<^verbatim>\<open>Math.ceil\<close> are exact on such values.

  NaN, the infinities (a result beyond the largest binary64 value) and the sign of zero have
  no counterpart in \<^typ>\<open>real\<close> and are not modelled. The expression \<^verbatim>\<open>x || 1.0\<close> on a
  number is "1 if x is 0, else x".
\<close>

definition roundTiesToEven :: "real \<Rightarrow> int" where
  "roundTiesToEven x =
     (let n = \<lfloor>x\<rfloor>; r = x - of_int n
      in if r < 1 / 2 then n else if 1 / 2 < r then n + 1 else if even n then n else n + 1)"

text \<open>The binade of a number other than 0: \<open>2 ^ expo x \<le> \<bar>x\<bar> < 2 ^ (expo x + 1)\<close>.\<close>

definition expo :: "real \<Rightarrow> int" where
  "expo x =
     (if 1 \<le> \<bar>x\<bar> then int (floorlog 2 (nat \<lfloor>\<bar>x\<bar>\<rfloor>)) - 1
      else - int (floorlog 2 (nat (\<lceil>1 / \<bar>x\<bar>\<rceil> - 1))))"

text \<open>The spacing of the binary64 values around \<open>x\<close>.\<close>

definition ulp :: "real \<Rightarrow> real" where
  "ulp x = 2 powi (max (expo x) (- 1022) - 52)"

definition fl :: "real \<Rightarrow> real" where
  "fl x = (if x = 0 then 0 else of_int (roundTiesToEven (x / ulp x)) * ulp x)"

text \<open>A real that is a binary64 value: what a field of an input can hold.\<close>

definition isDouble :: "real \<Rightarrow> bool" where
  "isDouble x = (fl x = x)"

section \<open>Errors and platform objects\<close>

text \<open>
  Platform objects are modelled by the attributes the engine reads and writes.
\<close>

datatype error =
    RangeError            \<comment> \<open>a negative argument of \<^verbatim>\<open>source.start\<close>, an out-of-bounds \<^verbatim>\<open>DataView\<close> write\<close>
  | InvalidStateError     \<comment> \<open>\<^verbatim>\<open>start\<close> or \<^verbatim>\<open>stop\<close> on a source in the wrong state\<close>
  | NotSupportedError     \<comment> \<open>an \<^verbatim>\<open>OfflineAudioContext\<close> of no length\<close>
  | ContextNotInitialized \<comment> \<open>\<^verbatim>\<open>throw new Error("AudioContext not initialized")\<close>\<close>

text \<open>An \<^verbatim>\<open>AudioBuffer\<close>: decoded samples, one list per channel.\<close>

record AudioBuffer =
  numberOfChannels :: nat
  bufferLength :: nat            \<comment> \<open>\<^verbatim>\<open>length\<close>, in sample frames\<close>
  sampleRate :: nat
  duration :: real               \<comment> \<open>seconds, as the platform reports it\<close>
  channelData :: "real list list" \<comment> \<open>\<^verbatim>\<open>getChannelData(i)\<close>\<close>

text \<open>
  An \<^verbatim>\<open>AudioParam\<close>: the number last assigned to \<^verbatim>\<open>.value\<close> (or the node's default)
  and the automation events scheduled on it, with the numbers the engine passes. What the
  platform makes of an assigned number (it keeps it in single precision, within the
  parameter's nominal range) is not the engine's code and is not modelled. Assigning
  \<^verbatim>\<open>.value\<close> leaves the events alone.
\<close>

datatype ParamEvent =
    LinearRampToValueAtTime real real   \<comment> \<open>target, end time\<close>
  | SetTargetAtTime real real real      \<comment> \<open>target, start time, time constant\<close>

fun eventTime :: "ParamEvent \<Rightarrow> real" where
  "eventTime (LinearRampToValueAtTime v t) = t"
| "eventTime (SetTargetAtTime v t tc) = t"

record AudioParam =
  paramValue :: real
  events :: "ParamEvent list"

definition newParam :: "real \<Rightarrow> AudioParam" where
  "newParam v = \<lparr>paramValue = v, events = []\<rparr>"

definition setValue :: "real \<Rightarrow> AudioParam \<Rightarrow> AudioParam" where
  "setValue v p = p\<lparr>paramValue := v\<rparr>"

definition cancelScheduledValues :: "real \<Rightarrow> AudioParam \<Rightarrow> AudioParam" where
  "cancelScheduledValues t p = p\<lparr>events := filter (\<lambda>ev. eventTime ev < t) (events p)\<rparr>"

definition linearRampToValueAtTime :: "real \<Rightarrow> real \<Rightarrow> AudioParam \<Rightarrow> AudioParam" where
  "linearRampToValueAtTime v t p = p\<lparr>events := events p @ [LinearRampToValueAtTime v t]\<rparr>"

definition setTargetAtTime :: "real \<Rightarrow> real \<Rightarrow> real \<Rightarrow> AudioParam \<Rightarrow> AudioParam" where
  "setTargetAtTime v t tc p = p\<lparr>events := events p @ [SetTargetAtTime v t tc]\<rparr>"


datatype BiquadType = Lowshelf | Peaking | Highshelf

record BiquadFilterNode =
  filterType :: BiquadType
  frequency :: real
  qFactor :: real
  filterGain :: AudioParam

record DelayNode =
  maxDelayTime :: real
  delayTime :: AudioParam

text \<open>
  The per-track chain of both engines: the nodes, and the wiring as the list of
  \<^verbatim>\<open>connect\<close> calls made when the chain is built.
\<close>

datatype NodeName = Input | EqLow | EqMid | EqHigh | Delay | DelayFeedback | DelayWet | Volume | Master

record TrackChain =
  inputGain :: AudioParam
  eqLow :: BiquadFilterNode
  eqMid :: BiquadFilterNode
  eqHigh :: BiquadFilterNode
  delayNode :: DelayNode
  delayFeedback :: AudioParam
  delayWet :: AudioParam
  volume :: AudioParam
  wiring :: "(NodeName \<times> NodeName) list"

text \<open>
  The nodes as both engines create and wire them, before any track value is written:
  a new gain is 1, a new filter gain and a new delay time are 0, a new Q is 1.
\<close>

definition chainWiring :: "(NodeName \<times> NodeName) list" where
  "chainWiring =
     [(Input, EqLow), (EqLow, EqMid), (EqMid, EqHigh), (EqHigh, Volume),
      (EqHigh, Delay), (Delay, DelayFeedback), (DelayFeedback, Delay),
      (Delay, DelayWet), (DelayWet, Volume), (Volume, Master)]"

definition newChain :: TrackChain where
  "newChain =
     \<lparr>inputGain = newParam 1,
      eqLow = \<lparr>filterType = Lowshelf, frequency = 320, qFactor = 1, filterGain = newParam 0\<rparr>,
      eqMid = \<lparr>filterType = Peaking, frequency = 1000, qFactor = 1, filterGain = newParam 0\<rparr>,
      eqHigh = \<lparr>filterType = Highshelf, frequency = 3200, qFactor = 1, filterGain = newParam 0\<rparr>,
      delayNode = \<lparr>maxDelayTime = 2, delayTime = newParam 0\<rparr>,
      delayFeedback = newParam 1,
      delayWet = newParam 1,
      volume = newParam 1,
      wiring = chainWiring\<rparr>"

text \<open>
  An \<^verbatim>\<open>AudioBufferSourceNode\<close>. \<^verbatim>\<open>start\<close> and \<^verbatim>\<open>stop\<close> are platform code;
  the Web Audio API has \<^verbatim>\<open>start(when, offset, duration)\<close> throw a RangeError on a negative
  argument and an InvalidStateError on a second call, and \<^verbatim>\<open>stop\<close> throw an
  InvalidStateError on a source that was never started. Both engines wrap \<^verbatim>\<open>stop\<close> in
  \<^verbatim>\<open>try/catch\<close> for a source that has already finished; the model has \<^verbatim>\<open>stop\<close> throw
  there too, so that the \<^verbatim>\<open>catch\<close> is a branch that is taken.
\<close>

datatype Destination = ChainInput string | MasterGain

datatype SourceState =
    Created                   \<comment> \<open>not started\<close>
  | Scheduled real real real  \<comment> \<open>started: when, offset, duration\<close>
  | Halted                    \<comment> \<open>stopped by \<^verbatim>\<open>stop()\<close>\<close>
  | Finished                  \<comment> \<open>played to its end\<close>

record SourceNode =
  srcBuffer :: "AudioBuffer option"
  srcPlaybackRate :: real
  srcDest :: "Destination option"
  srcState :: SourceState

definition newSource :: SourceNode where
  "newSource = \<lparr>srcBuffer = None, srcPlaybackRate = 1, srcDest = None, srcState = Created\<rparr>"

definition sourceStart :: "real \<Rightarrow> real \<Rightarrow> real \<Rightarrow> SourceNode \<Rightarrow> error + SourceNode" where
  "sourceStart whn off dur n =
     (if whn < 0 \<or> off < 0 \<or> dur < 0 then Inl RangeError
      else if srcState n \<noteq> Created then Inl InvalidStateError
      else Inr (n\<lparr>srcState := Scheduled whn off dur\<rparr>))"

definition sourceStop :: "SourceNode \<Rightarrow> error + SourceNode" where
  "sourceStop n =
     (case srcState n of
        Created \<Rightarrow> Inl InvalidStateError
      | Scheduled whn off dur \<Rightarrow> Inr (n\<lparr>srcState := Halted\<rparr>)
      | Halted \<Rightarrow> Inr n
      | Finished \<Rightarrow> Inl InvalidStateError)"

section \<open>types.ts\<close>

text \<open>The fields without any use in the engine (name, color, soloed) are left out.\<close>

record AudioClip =
  clipId :: string
  trackId :: string
  buffer :: AudioBuffer
  clipStartTime :: real   \<comment> \<open>\<^verbatim>\<open>startTime\<close>\<close>
  clipDuration :: real    \<comment> \<open>\<^verbatim>\<open>duration\<close>\<close>
  clipOffset :: real      \<comment> \<open>\<^verbatim>\<open>offset\<close>\<close>

record EqBands =
  low :: real
  mid :: real
  high :: real

record EchoParams =
  amount :: real
  feedback :: real
  echoTime :: real        \<comment> \<open>\<^verbatim>\<open>time\<close>\<close>

record TrackEffects =
  eqBands :: EqBands      \<comment> \<open>\<^verbatim>\<open>eq\<close>\<close>
  echo :: EchoParams

record Track =
  trackIdent :: string    \<comment> \<open>\<^verbatim>\<open>id\<close>\<close>
  trackVolume :: real     \<comment> \<open>\<^verbatim>\<open>volume\<close>\<close>
  muted :: bool
  playbackRate :: real
  effects :: TrackEffects

section \<open>utils/audioEngine.ts: the engine state\<close>

text \<open>
  The audio context is modelled by its clock. Source nodes are objects with identity:
  \<open>sources\<close> is the store of every source node created so far, a node's index is its
  identity, and \<open>activeSources\<close> holds indices, in insertion order as a JavaScript Set does.
\<close>

record AudioContext =
  currentTime :: real

record AudioEngine =
  ctx :: "AudioContext option"          \<comment> \<open>\<^verbatim>\<open>context\<close>\<close>
  masterGain :: "AudioParam option"
  trackChains :: "string \<Rightarrow> TrackChain option"
  sources :: "SourceNode list"
  activeSources :: "nat list"
  startTime :: real
  pausedAt :: real
  isPlaying :: bool

text \<open>The engine as its constructor leaves it.\<close>

definition newEngine :: AudioEngine where
  "newEngine =
     \<lparr>ctx = None, masterGain = None, trackChains = (\<lambda>k. None), sources = [],
      activeSources = [], startTime = 0, pausedAt = 0, isPlaying = False\<rparr>"

text \<open>What the engine's methods return: normally, or by a throw that leaves the state as it was then.\<close>

datatype 'e outcome = Done 'e | Threw error 'e

fun engineOf :: "'e outcome \<Rightarrow> 'e" where
  "engineOf (Done e) = e"
| "engineOf (Threw err e) = e"

fun threw :: "'e outcome \<Rightarrow> bool" where
  "threw (Done e) = False"
| "threw (Threw err e) = True"

text \<open>\<^verbatim>\<open>array.forEach\<close> with a body that may throw: the first throw ends the loop.\<close>

fun forEach :: "('a \<Rightarrow> 'e \<Rightarrow> 'e outcome) \<Rightarrow> 'a list \<Rightarrow> 'e \<Rightarrow> 'e outcome" where
  "forEach f [] e = Done e"
| "forEach f (x # xs) e =
     (case f x e of Done e' \<Rightarrow> forEach f xs e' | Threw err e' \<Rightarrow> Threw err e')"

text \<open>The passing of time, which is the platform's: the context's clock reads \<open>t\<close>.\<close>

definition atClock :: "real \<Rightarrow> AudioEngine \<Rightarrow> AudioEngine" where
  "atClock t e = e\<lparr>ctx := map_option (\<lambda>c. c\<lparr>currentTime := t\<rparr>) (ctx e)\<rparr>"

section \<open>utils/audioEngine.ts: transport\<close>

definition init :: "AudioEngine \<Rightarrow> AudioEngine" where
  "init e =
     (if ctx e = None
      then e\<lparr>ctx := Some \<lparr>currentTime = 0\<rparr>, masterGain := Some (newParam 1)\<rparr>
      else e)"

definition createTrackChain :: "string \<Rightarrow> AudioEngine \<Rightarrow> error + (TrackChain \<times> AudioEngine)" where
  "createTrackChain tid e =
     (if ctx e = None \<or> masterGain e = None then Inl ContextNotInitialized
      else Inr (newChain, e\<lparr>trackChains := (trackChains e)(tid \<mapsto> newChain)\<rparr>))"

text \<open>
  The chain is mutated in place: the node objects in \<open>trackChains\<close> are the ones written.
\<close>

definition writeTrackParams :: "real \<Rightarrow> Track \<Rightarrow> TrackChain \<Rightarrow> TrackChain" where
  "writeTrackParams now track chain =
     (let targetVol = (if muted track then 0 else trackVolume track)
      in chain
         \<lparr>volume := linearRampToValueAtTime targetVol (fl (now + fl (5 / 100)))
                      (cancelScheduledValues now (volume chain)),
          eqLow := (eqLow chain)\<lparr>filterGain := setValue (low (eqBands (effects track))) (filterGain (eqLow chain))\<rparr>,
          eqMid := (eqMid chain)\<lparr>filterGain := setValue (mid (eqBands (effects track))) (filterGain (eqMid chain))\<rparr>,
          eqHigh := (eqHigh chain)\<lparr>filterGain := setValue (high (eqBands (effects track))) (filterGain (eqHigh chain))\<rparr>,
          delayNode := (delayNode chain)\<lparr>delayTime := setValue (echoTime (echo (effects track))) (delayTime (delayNode chain))\<rparr>,
          delayFeedback := setValue (feedback (echo (effects track))) (delayFeedback chain),
          delayWet := setValue (amount (echo (effects track))) (delayWet chain)\<rparr>)"

definition updateTrackParams :: "Track \<Rightarrow> AudioEngine \<Rightarrow> AudioEngine outcome" where
  "updateTrackParams track e =
     (case ctx e of
        None \<Rightarrow> Done e
      | Some c \<Rightarrow>
          (case (case trackChains e (trackIdent track) of
                   Some chain \<Rightarrow> Inr (chain, e)
                 | None \<Rightarrow> createTrackChain (trackIdent track) e) of
             Inl err \<Rightarrow> Threw err e
           | Inr (chain, e1) \<Rightarrow>
               Done (e1\<lparr>trackChains := (trackChains e1)
                          (trackIdent track \<mapsto> writeTrackParams (currentTime c) track chain)\<rparr>)))"

text \<open>\<^verbatim>\<open>stop\<close>: each active source is stopped inside \<^verbatim>\<open>try/catch\<close>, then the set is cleared.\<close>

definition tryStop :: "SourceNode list \<Rightarrow> nat \<Rightarrow> SourceNode list" where
  "tryStop ns i =
     (case sourceStop (ns ! i) of
        Inl err \<Rightarrow> ns
      | Inr n \<Rightarrow> ns[i := n])"

definition stop :: "AudioEngine \<Rightarrow> AudioEngine" where
  "stop e =
     e\<lparr>sources := foldl tryStop (sources e) (activeSources e),
       activeSources := [],
       isPlaying := False\<rparr>"

definition getCurrentTime :: "AudioEngine \<Rightarrow> real" where
  "getCurrentTime e =
     (case ctx e of
        None \<Rightarrow> pausedAt e
      | Some c \<Rightarrow> if \<not> isPlaying e then pausedAt e else fl (currentTime c - startTime e))"

text \<open>
  The body of \<^verbatim>\<open>clips.forEach\<close> in \<^verbatim>\<open>play\<close>, in pieces. \<open>rate\<close> is
  \<^verbatim>\<open>track.playbackRate || 1.0\<close>, \<open>now\<close> is \<^verbatim>\<open>this.context!.currentTime\<close>.
\<close>

definition effectiveRate :: "Track \<Rightarrow> real" where
  "effectiveRate track = (if playbackRate track = 0 then 1 else playbackRate track)"

definition absoluteEndTime :: "real \<Rightarrow> AudioClip \<Rightarrow> real" where
  "absoluteEndTime rate clip =
     (let effectiveDuration = fl (clipDuration clip / rate)
      in fl (clipStartTime clip + effectiveDuration))"

definition whenToStart :: "real \<Rightarrow> real \<Rightarrow> AudioClip \<Rightarrow> real" where
  "whenToStart now startOffset clip =
     (if clipStartTime clip \<ge> startOffset
      then fl (now + fl (clipStartTime clip - startOffset))
      else now)"

definition timePassedInBuffer :: "real \<Rightarrow> real \<Rightarrow> AudioClip \<Rightarrow> real" where
  "timePassedInBuffer startOffset rate clip =
     (let timePassedOnTimeline = fl (startOffset - clipStartTime clip)
      in fl (timePassedOnTimeline * rate))"

definition offsetInBuffer :: "real \<Rightarrow> real \<Rightarrow> AudioClip \<Rightarrow> real" where
  "offsetInBuffer startOffset rate clip =
     (if clipStartTime clip \<ge> startOffset
      then clipOffset clip
      else fl (clipOffset clip + timePassedInBuffer startOffset rate clip))"

definition durationOfBufferToPlay :: "real \<Rightarrow> real \<Rightarrow> AudioClip \<Rightarrow> real" where
  "durationOfBufferToPlay startOffset rate clip =
     (if clipStartTime clip \<ge> startOffset
      then clipDuration clip
      else fl (clipDuration clip - timePassedInBuffer startOffset rate clip))"

text \<open>
  The \<^verbatim>\<open>try\<close> block: \<^verbatim>\<open>source.start\<close>, then the source joins \<open>activeSources\<close>;
  the \<^verbatim>\<open>catch\<close> only logs.
\<close>

definition startSource :: "nat \<Rightarrow> real \<Rightarrow> real \<Rightarrow> real \<Rightarrow> AudioEngine \<Rightarrow> AudioEngine" where
  "startSource i whn off dur e =
     (case sourceStart whn off dur (sources e ! i) of
        Inl err \<Rightarrow> e
      | Inr started \<Rightarrow>
          e\<lparr>sources := (sources e)[i := started], activeSources := activeSources e @ [i]\<rparr>)"

text \<open>
  A source node is created as soon as the clip is not wholly in the past; it becomes a
  voice only if \<^verbatim>\<open>start\<close> is reached and does not throw.
\<close>

definition playClip :: "real \<Rightarrow> Track list \<Rightarrow> real \<Rightarrow> AudioClip \<Rightarrow> AudioEngine \<Rightarrow> AudioEngine" where
  "playClip now tracks startOffset clip e =
     (case find (\<lambda>t. trackIdent t = trackId clip) tracks of
        None \<Rightarrow> e
      | Some track \<Rightarrow>
          if muted track then e
          else if absoluteEndTime (effectiveRate track) clip < startOffset then e
          else
            let i = length (sources e);
                source = newSource
                  \<lparr>srcBuffer := Some (buffer clip),
                   srcPlaybackRate := effectiveRate track,
                   srcDest := Some (case trackChains e (trackId clip) of
                                      Some chain \<Rightarrow> ChainInput (trackId clip)
                                    | None \<Rightarrow> MasterGain)\<rparr>;
                e1 = e\<lparr>sources := sources e @ [source]\<rparr>
            in if durationOfBufferToPlay startOffset (effectiveRate track) clip > 0
                  \<and> offsetInBuffer startOffset (effectiveRate track) clip < duration (buffer clip)
               then startSource i (whenToStart now startOffset clip)
                      (offsetInBuffer startOffset (effectiveRate track) clip)
                      (durationOfBufferToPlay startOffset (effectiveRate track) clip) e1
               else e1)"

definition play :: "AudioClip list \<Rightarrow> Track list \<Rightarrow> real \<Rightarrow> AudioEngine \<Rightarrow> AudioEngine outcome" where
  "play clips tracks startOffset e =
     (let e1 = init (if isPlaying e then stop e else e)
      in case ctx e1 of
           None \<Rightarrow> Done e1
         | Some c \<Rightarrow>
             (case forEach updateTrackParams tracks
                     (e1\<lparr>isPlaying := True,
                         startTime := fl (currentTime c - startOffset),
                         pausedAt := startOffset\<rparr>) of
                Threw err e2 \<Rightarrow> Threw err e2
              | Done e2 \<Rightarrow>
                  Done (foldl (\<lambda>e' clip. playClip (currentTime c) tracks startOffset clip e') e2 clips)))"

text \<open>The \<^verbatim>\<open>onended\<close> handler that \<^verbatim>\<open>play\<close> installs on a started source.\<close>

definition onended :: "nat \<Rightarrow> AudioEngine \<Rightarrow> AudioEngine" where
  "onended i e = e\<lparr>activeSources := removeAll i (activeSources e)\<rparr>"

text \<open>
  The platform's part of a natural end: the source has played out. The handler
  \<open>onended\<close> runs afterwards, as a task of its own.
\<close>

definition finishes :: "nat \<Rightarrow> AudioEngine \<Rightarrow> AudioEngine" where
  "finishes i e =
     (if i < length (sources e)
      then e\<lparr>sources := (sources e)[i := (sources e ! i)\<lparr>srcState := Finished\<rparr>]\<rparr>
      else e)"

section \<open>services/AudioEngine.ts\<close>

text \<open>
  The \<^verbatim>\<open>types\<close> module that services/AudioEngine.ts imports (the interfaces
  \<^verbatim>\<open>EffectSettings\<close>, \<^verbatim>\<open>AudioClip\<close> and \<^verbatim>\<open>Track\<close> with \<^verbatim>\<open>bufferId\<close> and
  \<^verbatim>\<open>isMuted\<close>). Its clip and track are not those of types.ts above, so they are named
  \<open>SvcClip\<close> and \<open>SvcTrack\<close> here; a clip refers to its samples by \<^verbatim>\<open>bufferId\<close>, and
  there is no playback rate. The fields without any use in the engine (a clip's id, name
  and color, a track's name, isSolo and color) are left out.
\<close>

record EffectSettings =
  fxEqLow :: real           \<comment> \<open>\<^verbatim>\<open>eqLow\<close>, dB\<close>
  fxEqMid :: real           \<comment> \<open>\<^verbatim>\<open>eqMid\<close>, dB\<close>
  fxEqHigh :: real          \<comment> \<open>\<^verbatim>\<open>eqHigh\<close>, dB\<close>
  fxDelayTime :: real       \<comment> \<open>\<^verbatim>\<open>delayTime\<close>, seconds\<close>
  fxDelayFeedback :: real   \<comment> \<open>\<^verbatim>\<open>delayFeedback\<close>\<close>
  fxDelayMix :: real        \<comment> \<open>\<^verbatim>\<open>delayMix\<close>\<close>

record SvcClip =
  bufferId :: string        \<comment> \<open>key to the \<^verbatim>\<open>AudioBuffer\<close> map\<close>
  svcStartTime :: real      \<comment> \<open>\<^verbatim>\<open>startTime\<close>\<close>
  svcOffset :: real         \<comment> \<open>\<^verbatim>\<open>offset\<close>\<close>
  svcDuration :: real       \<comment> \<open>\<^verbatim>\<open>duration\<close>\<close>
  svcTrackId :: string      \<comment> \<open>\<^verbatim>\<open>trackId\<close>\<close>

record SvcTrack =
  svcId :: string           \<comment> \<open>\<^verbatim>\<open>id\<close>\<close>
  svcVolume :: real         \<comment> \<open>\<^verbatim>\<open>volume\<close>\<close>
  isMuted :: bool
  svcEffects :: EffectSettings  \<comment> \<open>\<^verbatim>\<open>effects\<close>\<close>

text \<open>This engine creates its context in the constructor, so it always has one.\<close>

record SvcEngine =
  svcCtx :: AudioContext                          \<comment> \<open>\<^verbatim>\<open>ctx\<close>\<close>
  svcMasterGain :: AudioParam                     \<comment> \<open>\<^verbatim>\<open>masterGain\<close>\<close>
  bufferMap :: "string \<Rightarrow> AudioBuffer option"
  svcActiveSources :: "nat list"                  \<comment> \<open>\<^verbatim>\<open>activeSources\<close>\<close>
  trackNodes :: "string \<Rightarrow> TrackChain option"
  svcSources :: "SourceNode list"                 \<comment> \<open>the store of source nodes\<close>

definition newSvcEngine :: SvcEngine where
  "newSvcEngine =
     \<lparr>svcCtx = \<lparr>currentTime = 0\<rparr>, svcMasterGain = newParam 1, bufferMap = (\<lambda>k. None),
      svcActiveSources = [], trackNodes = (\<lambda>k. None), svcSources = []\<rparr>"

definition addBuffer :: "string \<Rightarrow> AudioBuffer \<Rightarrow> SvcEngine \<Rightarrow> SvcEngine" where
  "addBuffer k b e = e\<lparr>bufferMap := (bufferMap e)(k \<mapsto> b)\<rparr>"

definition getBuffer :: "string \<Rightarrow> SvcEngine \<Rightarrow> AudioBuffer option" where
  "getBuffer k e = bufferMap e k"

definition svcWriteTrackParams :: "real \<Rightarrow> SvcTrack \<Rightarrow> TrackChain \<Rightarrow> TrackChain" where
  "svcWriteTrackParams now track nodes =
     (let vol = (if isMuted track then 0 else svcVolume track);
          dTime = max (fl (1 / 100)) (fxDelayTime (svcEffects track))
      in nodes
         \<lparr>volume := setTargetAtTime vol now (fl (5 / 100)) (volume nodes),
          eqLow := (eqLow nodes)\<lparr>filterGain := setTargetAtTime (fxEqLow (svcEffects track)) now (fl (1 / 10)) (filterGain (eqLow nodes))\<rparr>,
          eqMid := (eqMid nodes)\<lparr>filterGain := setTargetAtTime (fxEqMid (svcEffects track)) now (fl (1 / 10)) (filterGain (eqMid nodes))\<rparr>,
          eqHigh := (eqHigh nodes)\<lparr>filterGain := setTargetAtTime (fxEqHigh (svcEffects track)) now (fl (1 / 10)) (filterGain (eqHigh nodes))\<rparr>,
          delayNode := (delayNode nodes)\<lparr>delayTime := setTargetAtTime dTime now (fl (1 / 10)) (delayTime (delayNode nodes))\<rparr>,
          delayFeedback := setTargetAtTime (fxDelayFeedback (svcEffects track)) now (fl (1 / 10)) (delayFeedback nodes),
          delayWet := setTargetAtTime (fxDelayMix (svcEffects track)) now (fl (1 / 10)) (delayWet nodes)\<rparr>)"

definition svcUpdateTrackParams :: "SvcTrack \<Rightarrow> SvcEngine \<Rightarrow> SvcEngine" where
  "svcUpdateTrackParams track e =
     (case trackNodes e (svcId track) of
        None \<Rightarrow> e
      | Some nodes \<Rightarrow>
          e\<lparr>trackNodes := (trackNodes e)
               (svcId track \<mapsto> svcWriteTrackParams (currentTime (svcCtx e)) track nodes)\<rparr>)"

definition setupTrack :: "SvcTrack \<Rightarrow> SvcEngine \<Rightarrow> SvcEngine" where
  "setupTrack track e =
     (if trackNodes e (svcId track) \<noteq> None then svcUpdateTrackParams track e
      else svcUpdateTrackParams track
             (e\<lparr>trackNodes := (trackNodes e)(svcId track \<mapsto> newChain)\<rparr>))"

definition stopAll :: "SvcEngine \<Rightarrow> SvcEngine" where
  "stopAll e =
     e\<lparr>svcSources := foldl tryStop (svcSources e) (svcActiveSources e),
       svcActiveSources := []\<rparr>"

text \<open>\<^verbatim>\<open>playSource\<close> has no \<^verbatim>\<open>try/catch\<close>: a throw of \<^verbatim>\<open>start\<close> leaves through the caller.\<close>

definition playSource ::
    "AudioBuffer \<Rightarrow> Destination \<Rightarrow> real \<Rightarrow> real \<Rightarrow> real \<Rightarrow> SvcEngine \<Rightarrow> SvcEngine outcome" where
  "playSource buf destination whn off dur e =
     (let i = length (svcSources e);
          source = newSource\<lparr>srcBuffer := Some buf, srcDest := Some destination\<rparr>;
          e1 = e\<lparr>svcSources := svcSources e @ [source]\<rparr>
      in case sourceStart whn off dur source of
           Inl err \<Rightarrow> Threw err e1
         | Inr started \<Rightarrow>
             Done (e1\<lparr>svcSources := (svcSources e1)[i := started],
                      svcActiveSources := svcActiveSources e1 @ [i]\<rparr>))"

text \<open>The body of \<^verbatim>\<open>clips.forEach\<close> in \<^verbatim>\<open>schedulePlayback\<close>; \<open>startTime\<close> is the clock read before the loop.\<close>

definition scheduleClip :: "real \<Rightarrow> real \<Rightarrow> SvcClip \<Rightarrow> SvcEngine \<Rightarrow> SvcEngine outcome" where
  "scheduleClip now startOffset clip e =
     (case bufferMap e (bufferId clip) of
        None \<Rightarrow> Done e
      | Some buf \<Rightarrow>
          (case trackNodes e (svcTrackId clip) of
             None \<Rightarrow> Done e
           | Some nodes \<Rightarrow>
               if svcStartTime clip \<ge> startOffset
               then let whenToPlay = fl (now + fl (svcStartTime clip - startOffset))
                    in playSource buf (ChainInput (svcTrackId clip))
                         whenToPlay (svcOffset clip) (svcDuration clip) e
               else if fl (svcStartTime clip + svcDuration clip) > startOffset
               then let timeAlreadyPassed = fl (startOffset - svcStartTime clip);
                        newOffset = fl (svcOffset clip + timeAlreadyPassed);
                        remainingDur = fl (svcDuration clip - timeAlreadyPassed)
                    in playSource buf (ChainInput (svcTrackId clip)) now newOffset remainingDur e
               else Done e))"

definition schedulePlayback :: "SvcClip list \<Rightarrow> real \<Rightarrow> SvcTrack list \<Rightarrow> SvcEngine \<Rightarrow> SvcEngine outcome" where
  "schedulePlayback clips startOffset tracks e =
     (let e1 = foldl (\<lambda>e' t. setupTrack t e') (stopAll e) tracks
      in forEach (scheduleClip (currentTime (svcCtx e1)) startOffset) clips e1)"

definition svcOnended :: "nat \<Rightarrow> SvcEngine \<Rightarrow> SvcEngine" where
  "svcOnended i e = e\<lparr>svcActiveSources := removeAll i (svcActiveSources e)\<rparr>"

section \<open>Offline rendering\<close>

text \<open>
  What \<^verbatim>\<open>renderOffline\<close> and \<^verbatim>\<open>exportProject\<close> build before they call
  \<^verbatim>\<open>startRendering\<close>: the render target, the chain replica registered for each track id,
  and the sources started, in the order of the clips. The graph is local to the call; when
  something throws, the call fails and nothing of the graph is left.
  \<^verbatim>\<open>new OfflineAudioContext(channels, length, rate)\<close> is platform code that refuses a
  length below one frame.
\<close>

record OfflineRender =
  offChannels :: nat
  offLength :: int
  offSampleRate :: nat
  offChains :: "string \<Rightarrow> TrackChain option"
  offSources :: "SourceNode list"

definition newOfflineContext :: "nat \<Rightarrow> int \<Rightarrow> nat \<Rightarrow> error + OfflineRender" where
  "newOfflineContext channels len rate =
     (if len < 1 then Inl NotSupportedError
      else Inr \<lparr>offChannels = channels, offLength = len, offSampleRate = rate,
                offChains = (\<lambda>k. None), offSources = []\<rparr>)"

fun forEachE :: "('a \<Rightarrow> 's \<Rightarrow> error + 's) \<Rightarrow> 'a list \<Rightarrow> 's \<Rightarrow> error + 's" where
  "forEachE f [] g = Inr g"
| "forEachE f (x # xs) g = (case f x g of Inl err \<Rightarrow> Inl err | Inr g' \<Rightarrow> forEachE f xs g')"

text \<open>utils/audioEngine.ts, \<^verbatim>\<open>renderOffline\<close>: the chain built for one track.\<close>

definition offlineChain :: "Track \<Rightarrow> TrackChain" where
  "offlineChain track =
     newChain
       \<lparr>eqLow := (eqLow newChain)\<lparr>filterGain := setValue (low (eqBands (effects track))) (filterGain (eqLow newChain))\<rparr>,
        eqMid := (eqMid newChain)\<lparr>filterGain := setValue (mid (eqBands (effects track))) (filterGain (eqMid newChain))\<rparr>,
        eqHigh := (eqHigh newChain)\<lparr>filterGain := setValue (high (eqBands (effects track))) (filterGain (eqHigh newChain))\<rparr>,
        delayNode := (delayNode newChain)\<lparr>delayTime := setValue (echoTime (echo (effects track))) (delayTime (delayNode newChain))\<rparr>,
        delayFeedback := setValue (feedback (echo (effects track))) (delayFeedback newChain),
        delayWet := setValue (amount (echo (effects track))) (delayWet newChain),
        volume := setValue (if muted track then 0 else trackVolume track) (volume newChain)\<rparr>"

definition addOfflineChain :: "OfflineRender \<Rightarrow> Track \<Rightarrow> OfflineRender" where
  "addOfflineChain g track = g\<lparr>offChains := (offChains g)(trackIdent track \<mapsto> offlineChain track)\<rparr>"

definition renderClip :: "Track list \<Rightarrow> AudioClip \<Rightarrow> OfflineRender \<Rightarrow> error + OfflineRender" where
  "renderClip tracks clip g =
     (case find (\<lambda>t. trackIdent t = trackId clip) tracks of
        None \<Rightarrow> Inr g
      | Some track \<Rightarrow>
          if muted track then Inr g
          else (case offChains g (trackId clip) of
                  None \<Rightarrow> Inr g
                | Some trackInput \<Rightarrow>
                    (case sourceStart (clipStartTime clip) (clipOffset clip) (clipDuration clip)
                            (newSource
                               \<lparr>srcBuffer := Some (buffer clip),
                                srcPlaybackRate := effectiveRate track,
                                srcDest := Some (ChainInput (trackId clip))\<rparr>) of
                       Inl err \<Rightarrow> Inl err
                     | Inr started \<Rightarrow> Inr (g\<lparr>offSources := offSources g @ [started]\<rparr>))))"

text \<open>
  \<^verbatim>\<open>renderOffline\<close> up to \<^verbatim>\<open>startRendering\<close>. The method reads nothing of the engine
  it belongs to; the engine is an argument so that this can be said.
\<close>

definition renderOfflineGraph ::
    "AudioClip list \<Rightarrow> Track list \<Rightarrow> real \<Rightarrow> AudioEngine \<Rightarrow> error + OfflineRender" where
  "renderOfflineGraph clips tracks totalDuration e =
     (let sampleRate = 44100;
          lengthInSamples = \<lceil>fl (totalDuration * real sampleRate)\<rceil>
      in case newOfflineContext 2 lengthInSamples sampleRate of
           Inl err \<Rightarrow> Inl err
         | Inr offlineCtx \<Rightarrow> forEachE (renderClip tracks) clips (foldl addOfflineChain offlineCtx tracks))"

text \<open>
  \<^verbatim>\<open>renderOffline\<close>: \<open>startRendering\<close> stands for the platform's renderer, which turns the
  graph into the mixed buffer.
\<close>

definition renderOffline ::
    "(OfflineRender \<Rightarrow> AudioBuffer) \<Rightarrow> AudioClip list \<Rightarrow> Track list \<Rightarrow> real \<Rightarrow> AudioEngine
       \<Rightarrow> error + AudioBuffer" where
  "renderOffline startRendering clips tracks totalDuration e =
     (case renderOfflineGraph clips tracks totalDuration e of
        Inl err \<Rightarrow> Inl err
      | Inr g \<Rightarrow> Inr (startRendering g))"

text \<open>services/AudioEngine.ts, \<^verbatim>\<open>exportProject\<close>.\<close>

definition svcOfflineChain :: "SvcTrack \<Rightarrow> TrackChain" where
  "svcOfflineChain track =
     (let vol = (if isMuted track then 0 else svcVolume track);
          dTime = max (fl (1 / 100)) (fxDelayTime (svcEffects track))
      in newChain
           \<lparr>volume := setValue vol (volume newChain),
            eqLow := (eqLow newChain)\<lparr>filterGain := setValue (fxEqLow (svcEffects track)) (filterGain (eqLow newChain))\<rparr>,
            eqMid := (eqMid newChain)\<lparr>filterGain := setValue (fxEqMid (svcEffects track)) (filterGain (eqMid newChain))\<rparr>,
            eqHigh := (eqHigh newChain)\<lparr>filterGain := setValue (fxEqHigh (svcEffects track)) (filterGain (eqHigh newChain))\<rparr>,
            delayNode := (delayNode newChain)\<lparr>delayTime := setValue dTime (delayTime (delayNode newChain))\<rparr>,
            delayFeedback := setValue (fxDelayFeedback (svcEffects track)) (delayFeedback newChain),
            delayWet := setValue (fxDelayMix (svcEffects track)) (delayWet newChain)\<rparr>)"

definition svcAddOfflineChain :: "OfflineRender \<Rightarrow> SvcTrack \<Rightarrow> OfflineRender" where
  "svcAddOfflineChain g track = g\<lparr>offChains := (offChains g)(svcId track \<mapsto> svcOfflineChain track)\<rparr>"

definition exportClip :: "SvcEngine \<Rightarrow> SvcClip \<Rightarrow> OfflineRender \<Rightarrow> error + OfflineRender" where
  "exportClip e clip g =
     (case bufferMap e (bufferId clip) of
        None \<Rightarrow> Inr g
      | Some buf \<Rightarrow>
          (case offChains g (svcTrackId clip) of
             None \<Rightarrow> Inr g
           | Some dest \<Rightarrow>
               (case sourceStart (svcStartTime clip) (svcOffset clip) (svcDuration clip)
                       (newSource\<lparr>srcBuffer := Some buf, srcDest := Some (ChainInput (svcTrackId clip))\<rparr>) of
                  Inl err \<Rightarrow> Inl err
                | Inr started \<Rightarrow> Inr (g\<lparr>offSources := offSources g @ [started]\<rparr>))))"

definition exportProjectGraph ::
    "SvcClip list \<Rightarrow> SvcTrack list \<Rightarrow> real \<Rightarrow> SvcEngine \<Rightarrow> error + OfflineRender" where
  "exportProjectGraph clips tracks totalDuration e =
     (case newOfflineContext 2 \<lceil>fl (totalDuration * 44100)\<rceil> 44100 of
        Inl err \<Rightarrow> Inl err
      | Inr offlineCtx \<Rightarrow> forEachE (exportClip e) clips (foldl svcAddOfflineChain offlineCtx tracks))"

text \<open>
  \<^verbatim>\<open>exportProject\<close>: \<open>startRendering\<close> is the platform's renderer and \<open>audioBufferToWav\<close>
  the encoder of services/audioUtils, which is not among the sources; both are parameters.
\<close>

definition exportProject ::
    "(OfflineRender \<Rightarrow> AudioBuffer) \<Rightarrow> (AudioBuffer \<Rightarrow> 'blob) \<Rightarrow> SvcClip list \<Rightarrow> SvcTrack list
       \<Rightarrow> real \<Rightarrow> SvcEngine \<Rightarrow> error + 'blob" where
  "exportProject startRendering audioBufferToWav clips tracks totalDuration e =
     (case exportProjectGraph clips tracks totalDuration e of
        Inl err \<Rightarrow> Inl err
      | Inr g \<Rightarrow> Inr (audioBufferToWav (startRendering g)))"

section \<open>utils/audioEngine.ts: the WAV encoder\<close>

text \<open>
  The \<^verbatim>\<open>ArrayBuffer\<close> is a list of bytes, zero when allocated. A \<^verbatim>\<open>DataView\<close> write
  past its end throws a RangeError, here \<open>None\<close>. \<^verbatim>\<open>setUint16\<close>, \<^verbatim>\<open>setUint32\<close> and
  \<^verbatim>\<open>setInt16\<close> keep the low 16 or 32 bits of the integer they are given and store them
  little-endian.
\<close>

type_synonym byte = "8 word"

definition le16 :: "16 word \<Rightarrow> byte list" where
  "le16 w = [ucast w, ucast (drop_bit 8 w)]"

definition le32 :: "32 word \<Rightarrow> byte list" where
  "le32 w = [ucast w, ucast (drop_bit 8 w), ucast (drop_bit 16 w), ucast (drop_bit 24 w)]"

definition writeBytes :: "nat \<Rightarrow> byte list \<Rightarrow> byte list \<Rightarrow> byte list option" where
  "writeBytes pos bs view =
     (if pos + length bs \<le> length view
      then Some (take pos view @ bs @ drop (pos + length bs) view)
      else None)"

text \<open>The two local helpers of \<^verbatim>\<open>bufferToWav\<close>: they write at \<open>pos\<close> and advance it.\<close>

definition setUint16 :: "nat \<Rightarrow> nat \<times> byte list \<Rightarrow> (nat \<times> byte list) option" where
  "setUint16 data s =
     (case s of (pos, view) \<Rightarrow>
        map_option (\<lambda>v. (pos + 2, v)) (writeBytes pos (le16 (word_of_nat data)) view))"

definition setUint32 :: "nat \<Rightarrow> nat \<times> byte list \<Rightarrow> (nat \<times> byte list) option" where
  "setUint32 data s =
     (case s of (pos, view) \<Rightarrow>
        map_option (\<lambda>v. (pos + 4, v)) (writeBytes pos (le32 (word_of_nat data)) view))"

definition setInt16 :: "nat \<Rightarrow> int \<Rightarrow> byte list \<Rightarrow> byte list option" where
  "setInt16 pos v view = writeBytes pos (le16 (word_of_int v)) view"

text \<open>
  \<^verbatim>\<open>Math.max(-1, Math.min(1, x))\<close>, and \<^verbatim>\<open>x | 0\<close>: the number is truncated towards zero
  and wrapped to a signed 32-bit integer.
\<close>

definition clampSample :: "real \<Rightarrow> real" where
  "clampSample x = max (- 1) (min 1 x)"

definition toInt32 :: "real \<Rightarrow> int" where
  "toInt32 x = sint (word_of_int (if x < 0 then \<lceil>x\<rceil> else \<lfloor>x\<rfloor>) :: 32 word)"

definition pcmSample :: "real \<Rightarrow> int" where
  "pcmSample x =
     (let sample = clampSample x
      in toInt32 (if fl (fl (1 / 2) + sample) < 0 then fl (sample * 32768) else fl (sample * 32767)))"

text \<open>
  The inner \<^verbatim>\<open>for\<close> loop over the channels, for the frame at index \<open>pos\<close>, and the
  \<^verbatim>\<open>while\<close> loop around it. The loop variable \<open>pos\<close> is the one the header helpers
  have advanced.
\<close>

fun writeFrame :: "AudioBuffer \<Rightarrow> nat \<Rightarrow> nat list \<Rightarrow> nat \<Rightarrow> byte list \<Rightarrow> (nat \<times> byte list) option" where
  "writeFrame abuffer pos [] offset view = Some (offset, view)"
| "writeFrame abuffer pos (i # is) offset view =
     (case setInt16 (44 + offset) (pcmSample (channelData abuffer ! i ! pos)) view of
        None \<Rightarrow> None
      | Some view' \<Rightarrow> writeFrame abuffer pos is (offset + 2) view')"

function writeFrames :: "AudioBuffer \<Rightarrow> nat \<Rightarrow> nat \<Rightarrow> byte list \<Rightarrow> byte list option" where
  "writeFrames abuffer pos offset view =
     (if pos < bufferLength abuffer
      then (case writeFrame abuffer pos [0..<numberOfChannels abuffer] offset view of
              None \<Rightarrow> None
            | Some (offset', view') \<Rightarrow> writeFrames abuffer (Suc pos) offset' view')
      else Some view)"
  by pat_completeness auto
termination
  by (relation "measure (\<lambda>(abuffer, pos, offset, view). bufferLength abuffer - pos)") auto

definition bufferToWav :: "AudioBuffer \<Rightarrow> byte list option" where
  "bufferToWav abuffer =
     (let numOfChan = numberOfChannels abuffer;
          len = bufferLength abuffer * numOfChan * 2 + 44
      in Some (0, replicate len 0)
           \<bind> setUint32 0x46464952
           \<bind> setUint32 (len - 8)
           \<bind> setUint32 0x45564157
           \<bind> setUint32 0x20746d66
           \<bind> setUint32 16
           \<bind> setUint16 1
           \<bind> setUint16 numOfChan
           \<bind> setUint32 (sampleRate abuffer)
           \<bind> setUint32 (sampleRate abuffer * 2 * numOfChan)
           \<bind> setUint16 (numOfChan * 2)
           \<bind> setUint16 16
           \<bind> setUint32 0x61746164
           \<bind> (\<lambda>(pos, view). setUint32 (len - pos - 4) (pos, view))
           \<bind> (\<lambda>(pos, view). writeFrames abuffer pos 0 view))"

text \<open>Reading a little-endian field back.\<close>

definition u16le :: "byte list \<Rightarrow> nat" where
  "u16le bs = unat (bs ! 0) + 256 * unat (bs ! 1)"

definition u32le :: "byte list \<Rightarrow> nat" where
  "u32le bs = unat (bs ! 0) + 256 * unat (bs ! 1) + 65536 * unat (bs ! 2) + 16777216 * unat (bs ! 3)"

definition field :: "nat \<Rightarrow> nat \<Rightarrow> byte list \<Rightarrow> byte list" where
  "field pos n bytes = take n (drop pos bytes)"

section \<open>Observations on the engine state\<close>

text \<open>
  The clock a call reads: the context's, and 0 on the fresh context that \<open>init\<close> makes when
  there is none yet.
\<close>

definition clockAt :: "AudioEngine \<Rightarrow> real" where
  "clockAt e = (case ctx e of None \<Rightarrow> 0 | Some c \<Rightarrow> currentTime c)"

text \<open>A source is sounding from its start until it is stopped or has played out.\<close>

definition sounding :: "SourceNode \<Rightarrow> bool" where
  "sounding n = (case srcState n of Scheduled whn off dur \<Rightarrow> True | _ \<Rightarrow> False)"

text \<open>The voices of an engine: the nodes its active set refers to, in insertion order.\<close>

definition voices :: "AudioEngine \<Rightarrow> SourceNode list" where
  "voices e = map (\<lambda>i. sources e ! i) (activeSources e)"

definition svcVoices :: "SvcEngine \<Rightarrow> SourceNode list" where
  "svcVoices e = map (\<lambda>i. svcSources e ! i) (svcActiveSources e)"

text \<open>
  What holds of every engine state that the methods produce from a new engine: the master
  gain exists whenever the context does, sources are active only while the transport is
  playing, and the active set refers to nodes in the store.
\<close>

definition wfEngine :: "AudioEngine \<Rightarrow> bool" where
  "wfEngine e =
     ((ctx e = None \<or> masterGain e \<noteq> None)
      \<and> (isPlaying e \<or> activeSources e = [])
      \<and> list_all (\<lambda>i. i < length (sources e)) (activeSources e))"

definition wfSvcEngine :: "SvcEngine \<Rightarrow> bool" where
  "wfSvcEngine e = list_all (\<lambda>i. i < length (svcSources e)) (svcActiveSources e)"

text \<open>
  The voice that \<open>playClip\<close> adds for a clip, if any: the same tests in the same order,
  without the engine. \<open>registered\<close> is \<open>trackChains\<close> when the clips are scheduled.
\<close>

definition clipVoice ::
    "real \<Rightarrow> Track list \<Rightarrow> real \<Rightarrow> (string \<Rightarrow> TrackChain option) \<Rightarrow> AudioClip \<Rightarrow> SourceNode option" where
  "clipVoice now tracks startOffset registered clip =
     (case find (\<lambda>t. trackIdent t = trackId clip) tracks of
        None \<Rightarrow> None
      | Some track \<Rightarrow>
          if muted track then None
          else if absoluteEndTime (effectiveRate track) clip < startOffset then None
          else if durationOfBufferToPlay startOffset (effectiveRate track) clip > 0
                  \<and> offsetInBuffer startOffset (effectiveRate track) clip < duration (buffer clip)
          then (case sourceStart (whenToStart now startOffset clip)
                       (offsetInBuffer startOffset (effectiveRate track) clip)
                       (durationOfBufferToPlay startOffset (effectiveRate track) clip)
                       (newSource
                          \<lparr>srcBuffer := Some (buffer clip),
                           srcPlaybackRate := effectiveRate track,
                           srcDest := Some (case registered (trackId clip) of
                                              Some chain \<Rightarrow> ChainInput (trackId clip)
                                            | None \<Rightarrow> MasterGain)\<rparr>) of
                  Inl err \<Rightarrow> None
                | Inr started \<Rightarrow> Some started)
          else None)"

text \<open>A started source, written out.\<close>

definition voice :: "AudioBuffer \<Rightarrow> real \<Rightarrow> Destination \<Rightarrow> real \<Rightarrow> real \<Rightarrow> real \<Rightarrow> SourceNode" where
  "voice buf rate dest whn off dur =
     \<lparr>srcBuffer = Some buf, srcPlaybackRate = rate, srcDest = Some dest,
      srcState = Scheduled whn off dur\<rparr>"

section \<open>Concrete inputs\<close>

text \<open>A two-second buffer, and an engine with one sounding voice and one that has played out.\<close>

definition demoBuffer :: AudioBuffer where
  "demoBuffer = \<lparr>numberOfChannels = 1, bufferLength = 2, sampleRate = 1, duration = 2,
                  channelData = [[1 / 2, - 1]]\<rparr>"

definition demoEngine :: AudioEngine where
  "demoEngine = newEngine
     \<lparr>ctx := Some \<lparr>currentTime = 4\<rparr>, masterGain := Some (newParam 1),
       sources := [voice demoBuffer 1 MasterGain 0 0 2,
                   (voice demoBuffer 1 MasterGain 1 0 2)\<lparr>srcState := Finished\<rparr>],
       activeSources := [0, 1], isPlaying := True\<rparr>"

text \<open>Tracks: a plain one, a muted one and one at double speed; clips on them.\<close>

definition flatEffects :: TrackEffects where
  "flatEffects = \<lparr>eqBands = \<lparr>low = 0, mid = 0, high = 0\<rparr>,
                   echo = \<lparr>amount = 0, feedback = 0, echoTime = 1 / 4\<rparr>\<rparr>"

definition demoTrack :: Track where
  "demoTrack = \<lparr>trackIdent = ''t1'', trackVolume = 3 / 4, muted = False, playbackRate = 1,
                 effects = flatEffects\<rparr>"

definition mutedTrack :: Track where
  "mutedTrack = \<lparr>trackIdent = ''t2'', trackVolume = 3 / 4, muted = True, playbackRate = 1,
                  effects = flatEffects\<rparr>"


definition clipAhead :: AudioClip where
  "clipAhead = \<lparr>clipId = ''a'', trackId = ''t1'', buffer = demoBuffer,
                 clipStartTime = 5, clipDuration = 2, clipOffset = 0\<rparr>"


definition clipBeyond :: AudioClip where
  "clipBeyond = \<lparr>clipId = ''c'', trackId = ''t1'', buffer = demoBuffer,
                  clipStartTime = 1, clipDuration = 1, clipOffset = 3\<rparr>"


definition clipMuted :: AudioClip where
  "clipMuted = \<lparr>clipId = ''e'', trackId = ''t2'', buffer = demoBuffer,
                 clipStartTime = 0, clipDuration = 2, clipOffset = 0\<rparr>"

section \<open>Observations on scheduling in services/AudioEngine.ts\<close>

text \<open>
  The \<^verbatim>\<open>start\<close> call that \<open>scheduleClip\<close> makes for a clip whose buffer and chain are
  found: when, offset, duration; none for a clip that ends at or before \<open>startOffset\<close>.
\<close>

definition svcStartArgs :: "real \<Rightarrow> real \<Rightarrow> SvcClip \<Rightarrow> (real \<times> real \<times> real) option" where
  "svcStartArgs now startOffset clip =
     (if svcStartTime clip \<ge> startOffset
      then Some (fl (now + fl (svcStartTime clip - startOffset)), svcOffset clip, svcDuration clip)
      else if fl (svcStartTime clip + svcDuration clip) > startOffset
      then Some (now, fl (svcOffset clip + fl (startOffset - svcStartTime clip)),
                 fl (svcDuration clip - fl (startOffset - svcStartTime clip)))
      else None)"

text \<open>The engine once \<open>schedulePlayback\<close> has stopped the old voices and set up the tracks.\<close>

definition afterSetup :: "SvcTrack list \<Rightarrow> SvcEngine \<Rightarrow> SvcEngine" where
  "afterSetup tracks e = foldl (\<lambda>e' t. setupTrack t e') (stopAll e) tracks"

text \<open>
  The voice that \<open>scheduleClip\<close> adds for a clip when \<^verbatim>\<open>start\<close> does not throw, if any.
  No test looks at the track's mute flag.
\<close>

definition svcLiveVoice :: "real \<Rightarrow> real \<Rightarrow> SvcEngine \<Rightarrow> SvcClip \<Rightarrow> SourceNode option" where
  "svcLiveVoice now startOffset e clip =
     (case bufferMap e (bufferId clip) of
        None \<Rightarrow> None
      | Some buf \<Rightarrow>
          (case trackNodes e (svcTrackId clip) of
             None \<Rightarrow> None
           | Some nodes \<Rightarrow>
               (case svcStartArgs now startOffset clip of
                  None \<Rightarrow> None
                | Some (whn, off, dur) \<Rightarrow> Some (voice buf 1 (ChainInput (svcTrackId clip)) whn off dur))))"


text \<open>The same for a clip of services/AudioEngine.ts: mute is not looked at.\<close>

definition svcOfflineVoice :: "SvcEngine \<Rightarrow> SvcTrack list \<Rightarrow> SvcClip \<Rightarrow> SourceNode option" where
  "svcOfflineVoice e tracks clip =
     (case bufferMap e (bufferId clip) of
        None \<Rightarrow> None
      | Some buf \<Rightarrow>
          if svcTrackId clip \<in> set (map svcId tracks)
          then Some (voice buf 1 (ChainInput (svcTrackId clip))
                       (svcStartTime clip) (svcOffset clip) (svcDuration clip))
          else None)"


text \<open>Tracks and clips of services/AudioEngine.ts, and an engine holding one buffer.\<close>

definition svcFlatEffects :: EffectSettings where
  "svcFlatEffects = \<lparr>fxEqLow = 0, fxEqMid = 0, fxEqHigh = 0, fxDelayTime = 1 / 4,
                      fxDelayFeedback = 1 / 4, fxDelayMix = 0\<rparr>"

definition svcDemoTrack :: SvcTrack where
  "svcDemoTrack = \<lparr>svcId = ''t1'', svcVolume = 1, isMuted = False, svcEffects = svcFlatEffects\<rparr>"

definition svcMutedTrack :: SvcTrack where
  "svcMutedTrack = \<lparr>svcId = ''t2'', svcVolume = 1, isMuted = True, svcEffects = svcFlatEffects\<rparr>"

definition svcClipAhead :: SvcClip where
  "svcClipAhead = \<lparr>bufferId = ''b1'', svcStartTime = 5, svcOffset = 0, svcDuration = 2,
     svcTrackId = ''t1''\<rparr>"

definition svcClipMuted :: SvcClip where
  "svcClipMuted = \<lparr>bufferId = ''b1'', svcStartTime = 0, svcOffset = 0, svcDuration = 2,
     svcTrackId = ''t2''\<rparr>"

definition svcClipNoBuffer :: SvcClip where
  "svcClipNoBuffer = \<lparr>bufferId = ''gone'', svcStartTime = 0, svcOffset = 0, svcDuration = 2,
     svcTrackId = ''t1''\<rparr>"

definition svcClipNoTrack :: SvcClip where
  "svcClipNoTrack = \<lparr>bufferId = ''b1'', svcStartTime = 0, svcOffset = 0, svcDuration = 2,
     svcTrackId = ''nowhere''\<rparr>"

definition svcDemoEngine :: SvcEngine where
  "svcDemoEngine = addBuffer ''b1'' demoBuffer newSvcEngine"

text \<open>
  A stereo buffer of 46 frames at 44100 Hz, with samples inside and outside \<open>[-1, 1]\<close>;
  the first 44 frames of a channel are alike and differ from the last two.
\<close>

definition wavBuffer :: AudioBuffer where
  "wavBuffer = \<lparr>numberOfChannels = 2, bufferLength = 46, sampleRate = 44100,
                 duration = fl (46 / 44100),
                 channelData = [replicate 44 (1 / 2) @ [- 1 / 2, 2],
                                replicate 44 (1 / 4) @ [1, - 3 / 4]]\<rparr>"








definition svcClipInside :: SvcClip where
  "svcClipInside = \<lparr>bufferId = ''b1'', svcStartTime = 0, svcOffset = 0, svcDuration = 2,
     svcTrackId = ''t1''\<rparr>"

definition svcClipEmpty :: SvcClip where
  "svcClipEmpty = \<lparr>bufferId = ''b1'', svcStartTime = 1, svcOffset = 0, svcDuration = 0,
     svcTrackId = ''t1''\<rparr>"

definition svcClipBeyond :: SvcClip where
  "svcClipBeyond = \<lparr>bufferId = ''b1'', svcStartTime = 1, svcOffset = 3, svcDuration = 1,
     svcTrackId = ''t1''\<rparr>"


section \<open>Rounding\<close>

text \<open>
  \<open>fl\<close> rounds to a neighbour in the grid of spacing \<open>ulp\<close>; it keeps 0, commutes with
  negation and is monotone, so it keeps the sign and every bound that is itself a binary64
  value.
\<close>

lemma roundTiesToEven_of_int: "roundTiesToEven (of_int n) = n"
  by (simp add: roundTiesToEven_def)

lemma roundTiesToEven_mono:
  assumes "x \<le> y"
  shows "roundTiesToEven x \<le> roundTiesToEven y"
proof (cases "\<lfloor>x\<rfloor> = \<lfloor>y\<rfloor>")
  case True
  then show ?thesis
    using assms by (auto simp: roundTiesToEven_def Let_def)
next
  case False
  then have "\<lfloor>x\<rfloor> < \<lfloor>y\<rfloor>"
    using assms floor_mono [of x y] by linarith
  moreover have "roundTiesToEven x \<le> \<lfloor>x\<rfloor> + 1" "\<lfloor>y\<rfloor> \<le> roundTiesToEven y"
    by (auto simp: roundTiesToEven_def Let_def)
  ultimately show ?thesis by linarith
qed

lemma roundTiesToEven_minus: "roundTiesToEven (- x) = - roundTiesToEven x"
proof (cases "x = of_int \<lfloor>x\<rfloor>")
  case True
  then have "- x = of_int (- \<lfloor>x\<rfloor>)" by simp
  then have "roundTiesToEven (- x) = - \<lfloor>x\<rfloor>"
    by (simp only: roundTiesToEven_of_int)
  moreover have "roundTiesToEven x = \<lfloor>x\<rfloor>"
    using True by (metis roundTiesToEven_of_int)
  ultimately show ?thesis by simp
next
  case False
  define n where "n = \<lfloor>x\<rfloor>"
  define r where "r = x - of_int n"
  have r: "0 < r" "r < 1"
    using False by (simp_all add: r_def n_def) linarith+
  have x: "x = of_int n + r" by (simp add: r_def)
  have f: "\<lfloor>- x\<rfloor> = - n - 1"
    by (rule floor_unique) (use r in \<open>simp_all add: x\<close>)
  have g: "- x - of_int (- n - 1) = 1 - r"
    by (simp add: x)
  have a: "roundTiesToEven x = (if r < 1 / 2 then n else if 1 / 2 < r then n + 1 else if even n then n else n + 1)"
    unfolding roundTiesToEven_def Let_def n_def [symmetric] r_def [symmetric] ..
  have b: "roundTiesToEven (- x) =
      (if 1 - r < 1 / 2 then - n - 1 else if 1 / 2 < 1 - r then - n - 1 + 1
       else if even (- n - 1) then - n - 1 else - n - 1 + 1)"
    unfolding roundTiesToEven_def Let_def f g ..
  show ?thesis
    unfolding a b using r by auto
qed

lemma nat_pow_bounds_real:
  assumes "2 ^ (k - 1) \<le> n" "n < 2 ^ k"
  shows "(2::real) ^ (k - 1) \<le> real n" "real n + 1 \<le> 2 ^ k"
proof -
  have "real (2 ^ (k - 1)) \<le> real n"
    using assms(1) by (simp only: of_nat_le_iff)
  then show "(2::real) ^ (k - 1) \<le> real n" by simp
  have "Suc n \<le> 2 ^ k" using assms(2) by simp
  then have "real (Suc n) \<le> real (2 ^ k)"
    by (simp only: of_nat_le_iff)
  then show "real n + 1 \<le> 2 ^ k" by simp
qed

lemma powi_pred: "0 < k \<Longrightarrow> (2::real) powi (int k - 1) = 2 ^ (k - 1)"
proof -
  assume "0 < k"
  then have "int k - 1 = int (k - 1)" by simp
  then show ?thesis by (simp only: power_int_of_nat)
qed

lemma expo_bounds:
  assumes "x \<noteq> 0"
  shows "2 powi expo x \<le> \<bar>x\<bar>" "\<bar>x\<bar> < 2 powi (expo x + 1)"
proof -
  have "2 powi expo x \<le> \<bar>x\<bar> \<and> \<bar>x\<bar> < 2 powi (expo x + 1)"
  proof (cases "1 \<le> \<bar>x\<bar>")
    case True
    define n where "n = nat \<lfloor>\<bar>x\<bar>\<rfloor>"
    define k where "k = floorlog 2 n"
    have n: "0 < n" "real n \<le> \<bar>x\<bar>" "\<bar>x\<bar> < real n + 1"
      using True by (auto simp: n_def)
    have b: "2 ^ (k - 1) \<le> n" "n < 2 ^ k"
      using floorlog_bounds [of n 2] n(1) by (simp_all add: k_def)
    have kp: "0 < k" using b(2) n(1) by (cases k) auto
    have e: "expo x = int k - 1"
      using True by (simp add: expo_def k_def n_def)
    note r = nat_pow_bounds_real [OF b]
    have u: "\<bar>x\<bar> < 2 powi (expo x + 1)"
      using n(3) r(2) by (simp add: e)
    have "2 powi expo x \<le> \<bar>x\<bar>"
      unfolding e powi_pred [OF kp] using n(2) r(1) by linarith
    with u show ?thesis by simp
  next
    case False
    define y where "y = 1 / \<bar>x\<bar>"
    define m where "m = nat (\<lceil>y\<rceil> - 1)"
    define k where "k = floorlog 2 m"
    have xp: "0 < \<bar>x\<bar>" "\<bar>x\<bar> < 1" using assms False by auto
    have y: "1 < y" using xp by (simp add: y_def)
    have m: "0 < m" "real m < y" "y \<le> real m + 1"
    proof -
      have c: "1 < \<lceil>y\<rceil>" using y by (simp add: less_ceiling_iff)
      then show "0 < m" by (simp add: m_def)
      have "real m = of_int \<lceil>y\<rceil> - 1" using c by (simp add: m_def)
      then show "real m < y" "y \<le> real m + 1"
        using ceiling_correct [of y] by linarith+
    qed
    have b: "2 ^ (k - 1) \<le> m" "m < 2 ^ k"
      using floorlog_bounds [of m 2] m(1) by (simp_all add: k_def)
    have kp: "0 < k" using b(2) m(1) by (cases k) auto
    have e: "expo x = - int k"
      using False by (simp add: expo_def k_def m_def y_def)
    note r = nat_pow_bounds_real [OF b]
    have "y \<le> 2 ^ k" using m(3) r(2) by linarith
    then have l: "2 powi (- int k) \<le> \<bar>x\<bar>"
      using xp by (simp add: y_def power_int_minus field_simps)
    have yl: "2 ^ (k - 1) < y" using m(2) r(1) by linarith
    have "(2::real) powi (- int k + 1) = 1 / 2 ^ (k - 1)"
    proof -
      have "- int k + 1 = - int (k - 1)" using kp by simp
      then show ?thesis by (simp only: power_int_minus_divide power_int_of_nat)
    qed
    moreover have "\<bar>x\<bar> < 1 / 2 ^ (k - 1)"
      using xp yl by (simp add: y_def field_simps)
    ultimately have "\<bar>x\<bar> < 2 powi (- int k + 1)"
      by simp
    with l show ?thesis by (simp add: e)
  qed
  then show "2 powi expo x \<le> \<bar>x\<bar>" "\<bar>x\<bar> < 2 powi (expo x + 1)" by simp_all
qed

lemma powi_less_cancel: "(2::real) powi a < 2 powi b \<Longrightarrow> a < b"
proof (rule ccontr)
  assume l: "(2::real) powi a < 2 powi b" and "\<not> a < b"
  then have "b \<le> a" by simp
  then have "(2::real) powi b \<le> 2 powi a"
    by (rule power_int_increasing) simp
  with l show False by simp
qed

lemma expo_unique:
  assumes "2 powi e \<le> \<bar>x\<bar>" "\<bar>x\<bar> < 2 powi (e + 1)"
  shows "expo x = e"
proof -
  have "0 < \<bar>x\<bar>" using assms(1) zero_less_power_int [of "2::real" e] by linarith
  then have "x \<noteq> 0" by auto
  note b = expo_bounds [OF this]
  have "(2::real) powi e < 2 powi (expo x + 1)" using assms(1) b(2) by linarith
  then have "e < expo x + 1" by (rule powi_less_cancel)
  moreover have "(2::real) powi expo x < 2 powi (e + 1)" using assms(2) b(1) by linarith
  then have "expo x < e + 1" by (rule powi_less_cancel)
  ultimately show ?thesis by linarith
qed

lemma expo_abs_mono:
  assumes "x \<noteq> 0" "\<bar>x\<bar> \<le> \<bar>y\<bar>"
  shows "expo x \<le> expo y"
proof -
  have "y \<noteq> 0" using assms by auto
  have "(2::real) powi expo x < 2 powi (expo y + 1)"
    using expo_bounds(1) [OF assms(1)] expo_bounds(2) [OF \<open>y \<noteq> 0\<close>] assms(2) by linarith
  then have "expo x < expo y + 1" by (rule powi_less_cancel)
  then show ?thesis by simp
qed

lemma expo_minus: "expo (- x) = expo x"
  by (simp add: expo_def)

lemma ulp_minus: "ulp (- x) = ulp x"
  by (simp add: ulp_def expo_minus)

lemma ulp_pos: "0 < ulp x"
  by (simp add: ulp_def)

lemma fl_zero: "fl 0 = 0"
  by (simp add: fl_def)

lemma fl_minus: "fl (- x) = - fl x"
  by (simp add: fl_def ulp_minus roundTiesToEven_minus)

lemma fl_nonneg:
  assumes "0 \<le> x"
  shows "0 \<le> fl x"
proof -
  have "0 \<le> x / ulp x" using assms ulp_pos [of x] by simp
  then have "roundTiesToEven 0 \<le> roundTiesToEven (x / ulp x)"
    by (rule roundTiesToEven_mono)
  then have "0 \<le> roundTiesToEven (x / ulp x)"
    using roundTiesToEven_of_int [of 0] by simp
  then show ?thesis
    using ulp_pos [of x] by (simp add: fl_def)
qed

lemma fl_pos_mono:
  assumes "0 < x" "x \<le> y"
  shows "fl x \<le> fl y"
proof -
  define ex where "ex = max (expo x) (- 1022)"
  define ey where "ey = max (expo y) (- 1022)"
  have x0: "x \<noteq> 0" and y0: "y \<noteq> 0" and yp: "0 < y" using assms by auto
  have le: "ex \<le> ey"
    using expo_abs_mono [of x y] assms by (simp add: ex_def ey_def)
  have ux: "ulp x = 2 powi (ex - 52)" and uy: "ulp y = 2 powi (ey - 52)"
    by (simp_all add: ulp_def ex_def ey_def)
  have fx: "fl x = of_int (roundTiesToEven (x / ulp x)) * ulp x"
    and fy: "fl y = of_int (roundTiesToEven (y / ulp y)) * ulp y"
    using x0 y0 by (simp_all add: fl_def)
  show ?thesis
  proof (cases "ex = ey")
    case True
    then have u: "ulp x = ulp y" by (simp add: ux uy)
    have "x / ulp y \<le> y / ulp y"
      using assms(2) ulp_pos [of y] by (simp add: divide_right_mono)
    then have "roundTiesToEven (x / ulp y) \<le> roundTiesToEven (y / ulp y)"
      by (rule roundTiesToEven_mono)
    then show ?thesis
      unfolding fx fy u using ulp_pos [of y] by (simp add: mult_right_mono)
  next
    case False
    then have lt: "ex < ey" using le by simp
    then have ey: "ey = expo y" by (auto simp: ex_def ey_def max_def split: if_splits)
    have "x < 2 powi (expo x + 1)"
      using expo_bounds(2) [OF x0] assms(1) by simp
    also have "\<dots> \<le> 2 powi (ex + 1)"
      by (rule power_int_increasing) (simp_all add: ex_def)
    finally have xb: "x < 2 powi (ex + 1)" .
    have split: "(2::real) powi (ex + 1) = 2 ^ 53 * 2 powi (ex - 52)"
    proof -
      have i: "ex + 1 = 53 + (ex - 52)" by simp
      have "(2::real) powi (53 + (ex - 52)) = 2 powi 53 * 2 powi (ex - 52)"
        by (rule power_int_add) simp
      then show ?thesis unfolding i by (simp only: power_int_numeral)
    qed
    have "x / ulp x \<le> 2 ^ 53"
      using xb unfolding split ux by (simp add: field_simps)
    then have "roundTiesToEven (x / ulp x) \<le> roundTiesToEven (of_int (2 ^ 53))"
      by (intro roundTiesToEven_mono) simp
    then have "roundTiesToEven (x / ulp x) \<le> 2 ^ 53"
      by (simp only: roundTiesToEven_of_int)
    then have "real_of_int (roundTiesToEven (x / ulp x)) \<le> 2 ^ 53"
      by (metis of_int_le_iff of_int_numeral of_int_power)
    then have "fl x \<le> 2 ^ 53 * ulp x"
      unfolding fx using ulp_pos [of x] by (simp add: mult_right_mono)
    then have a: "fl x \<le> 2 powi (ex + 1)"
      by (simp add: split ux)
    have b: "(2::real) powi (ex + 1) \<le> 2 powi ey"
      by (rule power_int_increasing) (use lt in simp_all)
    have yb: "2 powi ey \<le> y"
      using expo_bounds(1) [OF y0] yp by (simp add: ey)
    have split2: "(2::real) powi ey = 2 ^ 52 * 2 powi (ey - 52)"
    proof -
      have i: "ey = 52 + (ey - 52)" by simp
      have "(2::real) powi (52 + (ey - 52)) = 2 powi 52 * 2 powi (ey - 52)"
        by (rule power_int_add) simp
      then have "(2::real) powi ey = 2 powi 52 * 2 powi (ey - 52)"
        using i by simp
      then show ?thesis by (simp only: power_int_numeral)
    qed
    have "2 ^ 52 \<le> y / ulp y"
      using yb unfolding split2 uy by (simp add: field_simps)
    then have "roundTiesToEven (of_int (2 ^ 52)) \<le> roundTiesToEven (y / ulp y)"
      by (intro roundTiesToEven_mono) simp
    then have "2 ^ 52 \<le> roundTiesToEven (y / ulp y)"
      by (simp only: roundTiesToEven_of_int)
    then have "2 ^ 52 \<le> real_of_int (roundTiesToEven (y / ulp y))"
      by (metis of_int_le_iff of_int_numeral of_int_power)
    then have "2 ^ 52 * ulp y \<le> fl y"
      unfolding fy using ulp_pos [of y] by (simp add: mult_right_mono)
    then have c: "2 powi ey \<le> fl y"
      by (simp add: split2 uy)
    show ?thesis using a b c by linarith
  qed
qed

lemma fl_mono:
  assumes "x \<le> y"
  shows "fl x \<le> fl y"
proof -
  consider "0 < x" | "x \<le> 0" "0 \<le> y" | "y < 0" by linarith
  then show ?thesis
  proof cases
    case 1
    then show ?thesis using assms by (rule fl_pos_mono)
  next
    case 2
    have "fl x \<le> 0" using fl_nonneg [of "- x"] 2(1) by (simp add: fl_minus)
    moreover have "0 \<le> fl y" using 2(2) by (rule fl_nonneg)
    ultimately show ?thesis by linarith
  next
    case 3
    have "fl (- y) \<le> fl (- x)"
      by (rule fl_pos_mono) (use 3 assms in simp_all)
    then show ?thesis by (simp add: fl_minus)
  qed
qed

lemma fl_nonpos: "x \<le> 0 \<Longrightarrow> fl x \<le> 0"
  using fl_mono [of x 0] by (simp add: fl_zero)

text \<open>Evaluating \<open>fl\<close> at a numeral.\<close>

lemmas fl_eval = fl_def ulp_def expo_def roundTiesToEven_def Let_def compute_floorlog power_int_minus

lemma isDouble_small: "isDouble 0" "isDouble 1" "isDouble 2" "isDouble (1 / 2)"
  by (simp_all add: isDouble_def fl_eval)

section \<open>The transport of utils/audioEngine.ts\<close>

text \<open>Neither the track setup nor the scheduling of clips touches the transport fields.\<close>

lemma startSource_fields:
  "ctx (startSource i w off d e) = ctx e" "isPlaying (startSource i w off d e) = isPlaying e"
  "startTime (startSource i w off d e) = startTime e" "pausedAt (startSource i w off d e) = pausedAt e"
  "masterGain (startSource i w off d e) = masterGain e" "trackChains (startSource i w off d e) = trackChains e"
  "length (sources (startSource i w off d e)) = length (sources e)"
  by (simp_all add: startSource_def split: sum.splits)

lemma playClip_fields:
  "ctx (playClip now tracks s c e) = ctx e" "isPlaying (playClip now tracks s c e) = isPlaying e"
  "startTime (playClip now tracks s c e) = startTime e" "pausedAt (playClip now tracks s c e) = pausedAt e"
  "masterGain (playClip now tracks s c e) = masterGain e" "trackChains (playClip now tracks s c e) = trackChains e"
  by (simp_all add: playClip_def Let_def startSource_fields split: option.splits)

lemma foldl_playClip_fields:
  "ctx (foldl (\<lambda>e' c. playClip now tracks s c e') e clips) = ctx e"
  "isPlaying (foldl (\<lambda>e' c. playClip now tracks s c e') e clips) = isPlaying e"
  "startTime (foldl (\<lambda>e' c. playClip now tracks s c e') e clips) = startTime e"
  "pausedAt (foldl (\<lambda>e' c. playClip now tracks s c e') e clips) = pausedAt e"
  "masterGain (foldl (\<lambda>e' c. playClip now tracks s c e') e clips) = masterGain e"
  "trackChains (foldl (\<lambda>e' c. playClip now tracks s c e') e clips) = trackChains e"
  by (induction clips arbitrary: e) (simp_all add: playClip_fields)

lemma updateTrackParams_fields:
  "ctx (engineOf (updateTrackParams t e)) = ctx e"
  "isPlaying (engineOf (updateTrackParams t e)) = isPlaying e"
  "startTime (engineOf (updateTrackParams t e)) = startTime e"
  "pausedAt (engineOf (updateTrackParams t e)) = pausedAt e"
  "masterGain (engineOf (updateTrackParams t e)) = masterGain e"
  "sources (engineOf (updateTrackParams t e)) = sources e"
  "activeSources (engineOf (updateTrackParams t e)) = activeSources e"
  unfolding updateTrackParams_def createTrackChain_def
  by (simp_all split: option.splits)

lemma forEach_engineOf_Cons:
  "engineOf (forEach f (x # xs) e) =
     (if threw (f x e) then engineOf (f x e) else engineOf (forEach f xs (engineOf (f x e))))"
  by (cases "f x e") simp_all

lemma forEach_updateTrackParams_fields:
  "ctx (engineOf (forEach updateTrackParams tracks e)) = ctx e"
  "isPlaying (engineOf (forEach updateTrackParams tracks e)) = isPlaying e"
  "startTime (engineOf (forEach updateTrackParams tracks e)) = startTime e"
  "pausedAt (engineOf (forEach updateTrackParams tracks e)) = pausedAt e"
  "masterGain (engineOf (forEach updateTrackParams tracks e)) = masterGain e"
  "sources (engineOf (forEach updateTrackParams tracks e)) = sources e"
  "activeSources (engineOf (forEach updateTrackParams tracks e)) = activeSources e"
  by (induction tracks arbitrary: e)
     (simp_all del: forEach.simps(2) add: forEach_engineOf_Cons updateTrackParams_fields)

lemma stop_fields:
  "ctx (stop e) = ctx e" "masterGain (stop e) = masterGain e" "trackChains (stop e) = trackChains e"
  "startTime (stop e) = startTime e" "pausedAt (stop e) = pausedAt e"
  "activeSources (stop e) = []" "isPlaying (stop e) = False"
  by (simp_all add: stop_def)

lemma ctx_init: "ctx (init e) = Some \<lparr>currentTime = clockAt e\<rparr>"
  by (cases "ctx e") (simp_all add: init_def clockAt_def)

lemma init_fields:
  "isPlaying (init e) = isPlaying e" "startTime (init e) = startTime e" "pausedAt (init e) = pausedAt e"
  "sources (init e) = sources e" "activeSources (init e) = activeSources e" "trackChains (init e) = trackChains e"
  by (simp_all add: init_def)

lemma clockAt_stop: "clockAt (stop e) = clockAt e"
  by (simp add: clockAt_def stop_fields)

lemma play_engineOf:
  "engineOf (play clips tracks s e) =
     (let e1 = init (if isPlaying e then stop e else e);
          e2 = forEach updateTrackParams tracks
                 (e1\<lparr>isPlaying := True, startTime := fl (clockAt e - s), pausedAt := s\<rparr>)
      in if threw e2 then engineOf e2
         else foldl (\<lambda>e' clip. playClip (clockAt e) tracks s clip e') (engineOf e2) clips)"
proof -
  have c: "ctx (init (if isPlaying e then stop e else e)) = Some \<lparr>currentTime = clockAt e\<rparr>"
    by (simp add: ctx_init clockAt_stop)
  show ?thesis
    unfolding play_def Let_def c
    by (simp split: outcome.splits)
qed

lemma play_transport:
  "isPlaying (engineOf (play clips tracks s e))"
  "startTime (engineOf (play clips tracks s e)) = fl (clockAt e - s)"
  "pausedAt (engineOf (play clips tracks s e)) = s"
  "ctx (engineOf (play clips tracks s e)) = Some \<lparr>currentTime = clockAt e\<rparr>"
  unfolding play_engineOf Let_def
  by (simp_all add: foldl_playClip_fields forEach_updateTrackParams_fields ctx_init clockAt_stop)

lemma getCurrentTime_atClock_playing:
  "isPlaying e \<Longrightarrow> ctx e \<noteq> None \<Longrightarrow> getCurrentTime (atClock t e) = fl (t - startTime e)"
  by (auto simp: getCurrentTime_def atClock_def)

lemma getCurrentTime_not_playing:
  "\<not> isPlaying e \<Longrightarrow> getCurrentTime (atClock t e) = pausedAt e"
  by (auto simp: getCurrentTime_def atClock_def split: option.splits)

lemma atClock_same: "ctx e = Some \<lparr>currentTime = t\<rparr> \<Longrightarrow> atClock t e = e"
  by (simp add: atClock_def)

lemma fl_error: "\<bar>fl x - x\<bar> \<le> ulp x / 2"
proof (cases "x = 0")
  case True
  then show ?thesis using ulp_pos [of x] by (simp add: fl_def)
next
  case False
  define y where "y = x / ulp x"
  have "\<bar>real_of_int (roundTiesToEven y) - y\<bar> \<le> 1 / 2"
    unfolding roundTiesToEven_def Let_def by (auto simp: abs_if) linarith+
  then have "\<bar>real_of_int (roundTiesToEven y) - y\<bar> * ulp x \<le> 1 / 2 * ulp x"
    using ulp_pos [of x] by (simp add: mult_right_mono)
  moreover have "\<bar>real_of_int (roundTiesToEven y) - y\<bar> * ulp x
                  = \<bar>real_of_int (roundTiesToEven y) * ulp x - y * ulp x\<bar>"
    using ulp_pos [of x] by (simp add: abs_mult left_diff_distrib [symmetric])
  moreover have "y * ulp x = x"
    using ulp_pos [of x] by (simp add: y_def)
  ultimately show ?thesis
    using False by (simp add: fl_def y_def)
qed

text \<open>The engine of the example below: a fresh context whose clock has reached one second.\<close>

lemma position_at_one_second:
  "getCurrentTime (engineOf (play [] [] (fl (1 / 10)) (atClock 1 (init newEngine))))
     = 900719925474099 / 2 ^ 53"
  "fl (1 / 10) = 3602879701896397 / 2 ^ 55"
proof -
  show f: "fl (1 / 10) = 3602879701896397 / 2 ^ 55"
    by (simp add: fl_eval)
  have c: "clockAt (atClock 1 (init newEngine)) = 1"
    by (simp add: clockAt_def atClock_def init_def newEngine_def)
  let ?e' = "engineOf (play [] [] (fl (1 / 10)) (atClock 1 (init newEngine)))"
  have "atClock 1 ?e' = ?e'"
    by (rule atClock_same) (simp add: play_transport c)
  then have "getCurrentTime ?e' = fl (1 - startTime ?e')"
    using getCurrentTime_atClock_playing [of ?e' 1] by (simp add: play_transport)
  also have "startTime ?e' = fl (1 - 3602879701896397 / 2 ^ 55)"
    by (simp add: play_transport c f)
  also have "fl (1 - 3602879701896397 / 2 ^ 55) = 8106479329266893 / 2 ^ 53"
    by (simp add: fl_eval)
  also have "fl (1 - 8106479329266893 / 2 ^ 53) = 900719925474099 / 2 ^ 53"
    by (simp add: fl_eval)
  finally show "getCurrentTime ?e' = 900719925474099 / 2 ^ 53" .
qed

text \<open>
  C5, as amended. While the transport is playing, \<open>getCurrentTime\<close> is the rounded
  difference of the clock reading and \<open>startTime\<close>, and \<open>play\<close> has set \<open>startTime\<close> to
  the rounded difference of the clock reading at the call and the offset passed. So the
  position does not decrease as the clock advances. At the instant of the call it is within
  half a unit in the last place of each of the two subtractions of that offset, and it is
  that offset when the offset is a binary64 value and the first subtraction is exact. While
  the transport is not playing it is the stored \<open>pausedAt\<close>, whatever the clock reads.
\<close>

theorem getCurrentTime_position:
  "(let e' = engineOf (play clips tracks s e)
    in isPlaying e'
       \<and> startTime e' = fl (clockAt e - s)
       \<and> getCurrentTime (atClock t e') = fl (t - fl (clockAt e - s))
       \<and> (t1 \<le> t2 \<longrightarrow> getCurrentTime (atClock t1 e') \<le> getCurrentTime (atClock t2 e'))
       \<and> \<bar>getCurrentTime e' - s\<bar>
            \<le> ulp (clockAt e - s) / 2 + ulp (clockAt e - fl (clockAt e - s)) / 2
       \<and> (isDouble s \<and> fl (clockAt e - s) = clockAt e - s \<longrightarrow> getCurrentTime e' = s))
   \<and> (isPlaying e0 \<and> ctx e0 \<noteq> None \<longrightarrow> getCurrentTime (atClock t e0) = fl (t - startTime e0))
   \<and> (\<not> isPlaying e0 \<longrightarrow> getCurrentTime (atClock t e0) = pausedAt e0)"
proof -
  let ?e' = "engineOf (play clips tracks s e)"
  let ?st = "fl (clockAt e - s)"
  have playing: "isPlaying ?e'" and c: "ctx ?e' \<noteq> None" and st: "startTime ?e' = ?st"
    by (simp_all add: play_transport)
  have pos: "getCurrentTime (atClock u ?e') = fl (u - ?st)" for u
    by (simp add: getCurrentTime_atClock_playing [OF playing c] play_transport)
  have mono: "getCurrentTime (atClock t1 ?e') \<le> getCurrentTime (atClock t2 ?e')" if "t1 \<le> t2"
    unfolding pos using that by (intro fl_mono) simp
  have "atClock (clockAt e) ?e' = ?e'"
    by (rule atClock_same) (simp add: play_transport)
  then have now: "getCurrentTime ?e' = fl (clockAt e - ?st)"
    using pos [of "clockAt e"] by simp
  have near: "\<bar>getCurrentTime ?e' - s\<bar> \<le> ulp (clockAt e - s) / 2 + ulp (clockAt e - ?st) / 2"
    unfolding now
    using fl_error [of "clockAt e - s"] fl_error [of "clockAt e - ?st"] by linarith
  have exact: "getCurrentTime ?e' = s" if "isDouble s \<and> ?st = clockAt e - s"
    unfolding now using that by (simp add: isDouble_def)
  show ?thesis
    unfolding Let_def
    using playing st pos mono near exact
          getCurrentTime_atClock_playing [of e0 t] getCurrentTime_not_playing [of e0 t]
    by blast
qed

theorem getCurrentTime_position_witness:
  "(1 :: real) \<le> 2
   \<and> getCurrentTime (atClock 1 (engineOf (play [] [] 3 newEngine)))
       \<le> getCurrentTime (atClock 2 (engineOf (play [] [] 3 newEngine)))
   \<and> isDouble 3 \<and> fl (clockAt newEngine - 3) = clockAt newEngine - 3
   \<and> getCurrentTime (engineOf (play [] [] 3 newEngine)) = 3
   \<and> isPlaying demoEngine \<and> ctx demoEngine \<noteq> None
   \<and> getCurrentTime (atClock 7 demoEngine) = 7
   \<and> \<not> isPlaying newEngine \<and> getCurrentTime (atClock 7 newEngine) = pausedAt newEngine"
proof -
  have d: "isDouble 3" "fl (clockAt newEngine - 3) = clockAt newEngine - 3"
    by (simp_all add: isDouble_def clockAt_def newEngine_def fl_eval)
  have p: "isPlaying demoEngine \<and> ctx demoEngine \<noteq> None"
    by (simp add: demoEngine_def newEngine_def)
  have n: "\<not> isPlaying newEngine"
    by (simp add: newEngine_def)
  note inst = getCurrentTime_position [of "[]" "[]" 3 newEngine 7 1 2 demoEngine, unfolded Let_def]
  have a: "getCurrentTime (atClock 1 (engineOf (play [] [] 3 newEngine)))
             \<le> getCurrentTime (atClock 2 (engineOf (play [] [] 3 newEngine)))"
    using inst by simp
  have b: "getCurrentTime (engineOf (play [] [] 3 newEngine)) = 3"
    using inst d by blast
  have c: "getCurrentTime (atClock 7 demoEngine) = fl (7 - startTime demoEngine)"
    using inst p by blast
  have c': "fl (7 - startTime demoEngine) = 7"
    by (simp add: demoEngine_def newEngine_def fl_eval)
  have e: "getCurrentTime (atClock 7 newEngine) = pausedAt newEngine"
    using getCurrentTime_position [of "[]" "[]" 3 newEngine 7 1 2 newEngine, unfolded Let_def] n
    by blast
  show ?thesis
    using a b c c' d p n e by simp
qed

theorem getCurrentTime_position_counterexample:
  "getCurrentTime (engineOf (play [] [] (fl (1 / 10)) (atClock 1 (init newEngine))))
     = 900719925474099 / 2 ^ 53
   \<and> fl (1 / 10) = 3602879701896397 / 2 ^ 55
   \<and> getCurrentTime (engineOf (play [] [] (fl (1 / 10)) (atClock 1 (init newEngine))))
       \<noteq> fl (1 / 10)
   \<and> clockAt (atClock 1 (init newEngine)) = 1
   \<and> fl (fl (1 - 1) + fl (1 / 10)) = fl (1 / 10)"
proof -
  have c: "clockAt (atClock 1 (init newEngine)) = 1"
    by (simp add: clockAt_def atClock_def init_def newEngine_def)
  have z: "fl (fl (1 - 1) + fl (1 / 10)) = fl (1 / 10)"
    by (simp add: fl_zero) (simp add: fl_eval)
  note g = position_at_one_second(1) and f = position_at_one_second(2)
  have ne: "getCurrentTime (engineOf (play [] [] (fl (1 / 10)) (atClock 1 (init newEngine))))
              \<noteq> fl (1 / 10)"
    unfolding g unfolding f by simp
  show ?thesis
    by (intro conjI g f ne c z)
qed

text \<open>
  C10. \<open>stop\<close> writes the active set and \<open>isPlaying\<close> (and halts the nodes); every
  other field of the engine is as before, \<open>pausedAt\<close> among them. So after \<open>play\<close> at
  offset \<open>s\<close> and \<open>stop\<close> at clock \<open>t1\<close>, the position reported at any clock \<open>t2\<close> is
  \<open>s\<close>, while just before the \<open>stop\<close> it was the position that had advanced with the
  clock to \<open>t1\<close>.
\<close>

theorem stop_keeps_pausedAt:
  "stop e = e\<lparr>sources := sources (stop e), activeSources := [], isPlaying := False\<rparr>
   \<and> pausedAt (stop e) = pausedAt e
   \<and> getCurrentTime (atClock t1 (engineOf (play clips tracks s e))) = fl (t1 - fl (clockAt e - s))
   \<and> getCurrentTime (atClock t2 (stop (atClock t1 (engineOf (play clips tracks s e))))) = s"
proof -
  let ?e' = "engineOf (play clips tracks s e)"
  have "isPlaying ?e'" "ctx ?e' \<noteq> None"
    by (simp_all add: play_transport)
  then have a: "getCurrentTime (atClock t1 ?e') = fl (t1 - fl (clockAt e - s))"
    by (simp add: getCurrentTime_atClock_playing play_transport)
  have "pausedAt (stop (atClock t1 ?e')) = s"
    by (simp add: stop_fields atClock_def play_transport)
  then have b: "getCurrentTime (atClock t2 (stop (atClock t1 ?e'))) = s"
    by (simp add: getCurrentTime_not_playing stop_fields)
  show ?thesis
    using a b by (simp add: stop_def)
qed


section \<open>Stopping the voices\<close>

text \<open>What the \<^verbatim>\<open>try/catch\<close> around \<^verbatim>\<open>source.stop()\<close> leaves of a node.\<close>

lemma length_tryStop: "length (tryStop ns i) = length ns"
  by (simp add: tryStop_def split: sum.splits)

lemma length_foldl_tryStop: "length (foldl tryStop ns is) = length ns"
  by (induction "is" arbitrary: ns) (simp_all add: length_tryStop)

lemma tryStop_nth_other: "j \<noteq> i \<Longrightarrow> tryStop ns i ! j = ns ! j"
  by (simp add: tryStop_def split: sum.splits)

lemma tryStop_nth_same:
  "i < length ns \<Longrightarrow>
   tryStop ns i ! i = (case srcState (ns ! i) of Scheduled w off d \<Rightarrow> (ns ! i)\<lparr>srcState := Halted\<rparr> | _ \<Rightarrow> ns ! i)"
  by (simp add: tryStop_def sourceStop_def split: SourceState.splits)

lemma tryStop_not_sounding:
  "j < length ns \<Longrightarrow> \<not> sounding (ns ! j) \<Longrightarrow> tryStop ns i ! j = ns ! j"
  by (cases "j = i")
     (auto simp: tryStop_nth_other tryStop_nth_same sounding_def split: SourceState.splits)

lemma foldl_tryStop_not_sounding:
  "j < length ns \<Longrightarrow> \<not> sounding (ns ! j) \<Longrightarrow> foldl tryStop ns is ! j = ns ! j"
  by (induction "is" arbitrary: ns) (simp_all add: length_tryStop tryStop_not_sounding)

lemma foldl_tryStop_nth_other:
  "j \<notin> set is \<Longrightarrow> foldl tryStop ns is ! j = ns ! j"
  by (induction "is" arbitrary: ns) (simp_all add: tryStop_nth_other)

lemma foldl_tryStop_halts:
  "i \<in> set is \<Longrightarrow> i < length ns \<Longrightarrow> sounding (ns ! i) \<Longrightarrow>
   foldl tryStop ns is ! i = (ns ! i)\<lparr>srcState := Halted\<rparr>"
proof (induction "is" arbitrary: ns)
  case Nil
  then show ?case by simp
next
  case (Cons k ks)
  show ?case
  proof (cases "k = i")
    case True
    have h: "tryStop ns i ! i = (ns ! i)\<lparr>srcState := Halted\<rparr>"
      using Cons.prems by (auto simp: tryStop_nth_same sounding_def split: SourceState.splits)
    have "foldl tryStop (tryStop ns i) ks ! i = tryStop ns i ! i"
      by (rule foldl_tryStop_not_sounding) (simp_all add: length_tryStop Cons.prems h sounding_def)
    with True h show ?thesis by simp
  next
    case False
    with Cons.prems have "i \<in> set ks" by simp
    moreover have "tryStop ns k ! i = ns ! i"
      using False by (simp add: tryStop_nth_other)
    ultimately show ?thesis
      using Cons.IH [of "tryStop ns k"] Cons.prems by (simp add: length_tryStop)
  qed
qed

lemma foldl_tryStop_quiet:
  assumes "i \<in> set is" "i < length ns"
  shows "\<not> sounding (foldl tryStop ns is ! i)"
proof (cases "sounding (ns ! i)")
  case True
  then show ?thesis
    using foldl_tryStop_halts [OF assms] by (simp add: sounding_def)
next
  case False
  then show ?thesis
    using foldl_tryStop_not_sounding [of i ns "is"] assms by simp
qed

text \<open>
  C4. \<open>stop\<close> and \<open>stopAll\<close> return an engine whose active set is empty; a throw of
  \<^verbatim>\<open>source.stop()\<close> cannot leave them. For every node the active set referred to: if it
  was sounding it is now halted, and in any case it is not sounding; if it had already
  finished, the \<^verbatim>\<open>stop()\<close> attempted on it throws and the node is as it was. The
  \<^verbatim>\<open>onended\<close> handler of a voice removes that voice from the active set and no other.
\<close>

theorem stop_halts_every_voice:
  "activeSources (stop e) = [] \<and> svcActiveSources (stopAll se) = []
   \<and> (i \<in> set (activeSources e) \<and> i < length (sources e) \<longrightarrow>
        \<not> sounding (sources (stop e) ! i)
        \<and> (sounding (sources e ! i) \<longrightarrow> srcState (sources (stop e) ! i) = Halted)
        \<and> (srcState (sources e ! i) = Finished \<longrightarrow>
               sourceStop (sources e ! i) = Inl InvalidStateError
               \<and> sources (stop e) ! i = sources e ! i))
   \<and> (i \<in> set (svcActiveSources se) \<and> i < length (svcSources se) \<longrightarrow>
        \<not> sounding (svcSources (stopAll se) ! i)
        \<and> (sounding (svcSources se ! i) \<longrightarrow> srcState (svcSources (stopAll se) ! i) = Halted)
        \<and> (srcState (svcSources se ! i) = Finished \<longrightarrow>
               sourceStop (svcSources se ! i) = Inl InvalidStateError
               \<and> svcSources (stopAll se) ! i = svcSources se ! i))
   \<and> set (activeSources (onended i e)) = set (activeSources e) - {i}
   \<and> set (svcActiveSources (svcOnended i se)) = set (svcActiveSources se) - {i}"
proof -
  have halts: "i \<in> set is \<Longrightarrow> i < length ns \<Longrightarrow>
      \<not> sounding (foldl tryStop ns is ! i)
      \<and> (sounding (ns ! i) \<longrightarrow> srcState (foldl tryStop ns is ! i) = Halted)
      \<and> (srcState (ns ! i) = Finished \<longrightarrow>
            sourceStop (ns ! i) = Inl InvalidStateError \<and> foldl tryStop ns is ! i = ns ! i)"
    for "is" ns
  proof (intro conjI impI)
    assume a: "i \<in> set is" "i < length ns"
    show "\<not> sounding (foldl tryStop ns is ! i)"
      using a by (rule foldl_tryStop_quiet)
    show "srcState (foldl tryStop ns is ! i) = Halted" if "sounding (ns ! i)"
      using foldl_tryStop_halts [OF a that] by simp
    show "sourceStop (ns ! i) = Inl InvalidStateError" if "srcState (ns ! i) = Finished"
      using that by (simp add: sourceStop_def)
    show "foldl tryStop ns is ! i = ns ! i" if "srcState (ns ! i) = Finished"
      using that a by (intro foldl_tryStop_not_sounding) (simp_all add: sounding_def)
  qed
  show ?thesis
    using halts [of "activeSources e" "sources e"] halts [of "svcActiveSources se" "svcSources se"]
    by (simp add: stop_def stopAll_def onended_def svcOnended_def)
qed

theorem stop_halts_every_voice_witness:
  "(0 \<in> set (activeSources demoEngine) \<and> 0 < length (sources demoEngine)
    \<and> sounding (sources demoEngine ! 0) \<and> srcState (sources (stop demoEngine) ! 0) = Halted)
   \<and> (1 \<in> set (activeSources demoEngine) \<and> 1 < length (sources demoEngine)
    \<and> srcState (sources demoEngine ! 1) = Finished
    \<and> sources (stop demoEngine) ! 1 = sources demoEngine ! 1)
   \<and> activeSources (stop demoEngine) = []"
  using stop_halts_every_voice [of demoEngine newSvcEngine 0]
        stop_halts_every_voice [of demoEngine newSvcEngine 1]
  by (simp add: demoEngine_def newEngine_def voice_def sounding_def)

section \<open>Scheduling in play\<close>

lemma updateTrackParams_Done:
  assumes "ctx e = Some c" "masterGain e \<noteq> None"
  shows "\<exists>chain. updateTrackParams t e = Done (e\<lparr>trackChains := (trackChains e)(trackIdent t \<mapsto> chain)\<rparr>)"
  using assms unfolding updateTrackParams_def createTrackChain_def
  by (cases "trackChains e (trackIdent t)") auto

lemma forEach_updateTrackParams_Done:
  assumes "ctx e = Some c" "masterGain e \<noteq> None"
  shows "\<exists>e'. forEach updateTrackParams tracks e = Done e'
           \<and> (\<forall>t \<in> set tracks. trackChains e' (trackIdent t) \<noteq> None)
           \<and> (\<forall>k. trackChains e k \<noteq> None \<longrightarrow> trackChains e' k \<noteq> None)"
  using assms
proof (induction tracks arbitrary: e)
  case Nil
  then show ?case by simp
next
  case (Cons t ts)
  obtain chain where d: "updateTrackParams t e = Done (e\<lparr>trackChains := (trackChains e)(trackIdent t \<mapsto> chain)\<rparr>)"
    using updateTrackParams_Done [OF Cons.prems] by blast
  let ?e1 = "e\<lparr>trackChains := (trackChains e)(trackIdent t \<mapsto> chain)\<rparr>"
  have "ctx ?e1 = Some c" "masterGain ?e1 \<noteq> None"
    using Cons.prems by simp_all
  from Cons.IH [OF this] obtain e' where e':
    "forEach updateTrackParams ts ?e1 = Done e'"
    "\<forall>t \<in> set ts. trackChains e' (trackIdent t) \<noteq> None"
    "\<forall>k. trackChains ?e1 k \<noteq> None \<longrightarrow> trackChains e' k \<noteq> None"
    by blast
  have "trackChains e' (trackIdent t) \<noteq> None"
    using e'(3) by simp
  moreover have "\<forall>k. trackChains e k \<noteq> None \<longrightarrow> trackChains e' k \<noteq> None"
    using e'(3) by simp
  ultimately show ?case
    using d e'(1,2) by simp
qed

lemma playClip_closed:
  "playClip now tracks s c e =
     (case find (\<lambda>t. trackIdent t = trackId c) tracks of
        None \<Rightarrow> e
      | Some track \<Rightarrow>
          if muted track then e
          else if absoluteEndTime (effectiveRate track) c < s then e
          else (case clipVoice now tracks s (trackChains e) c of
                  None \<Rightarrow> e\<lparr>sources := sources e @
                         [newSource\<lparr>srcBuffer := Some (buffer c), srcPlaybackRate := effectiveRate track,
                            srcDest := Some (case trackChains e (trackId c) of
                                              Some chain \<Rightarrow> ChainInput (trackId c)
                                            | None \<Rightarrow> MasterGain)\<rparr>]\<rparr>
                | Some n \<Rightarrow> e\<lparr>sources := sources e @ [n],
                               activeSources := activeSources e @ [length (sources e)]\<rparr>))"
  by (simp add: playClip_def clipVoice_def Let_def startSource_def split: option.splits sum.splits)

lemma voices_append_source:
  "list_all (\<lambda>i. i < length (sources e)) (activeSources e) \<Longrightarrow>
   voices (e\<lparr>sources := sources e @ [n]\<rparr>) = voices e"
  by (simp add: voices_def list_all_iff nth_append)

lemma voices_append_voice:
  "list_all (\<lambda>i. i < length (sources e)) (activeSources e) \<Longrightarrow>
   voices (e\<lparr>sources := sources e @ [n], activeSources := activeSources e @ [length (sources e)]\<rparr>) = voices e @ [n]"
  by (simp add: voices_def list_all_iff nth_append)

lemma playClip_voices:
  assumes "list_all (\<lambda>i. i < length (sources e)) (activeSources e)"
  shows "voices (playClip now tracks s c e) =
           voices e @ (case clipVoice now tracks s (trackChains e) c of None \<Rightarrow> [] | Some n \<Rightarrow> [n])"
  using assms
  apply (subst playClip_closed)
  apply (auto split: option.splits simp: voices_append_source voices_append_voice)
  apply (simp_all add: clipVoice_def)
  done

lemma playClip_refs:
  assumes "list_all (\<lambda>i. i < length (sources e)) (activeSources e)"
  shows "list_all (\<lambda>i. i < length (sources (playClip now tracks s c e))) (activeSources (playClip now tracks s c e))"
  using assms
  apply (subst playClip_closed)
  apply (subst playClip_closed)
  apply (auto split: option.splits simp: list_all_iff)
  done

lemma foldl_playClip_voices:
  assumes "list_all (\<lambda>i. i < length (sources e)) (activeSources e)"
  shows "voices (foldl (\<lambda>e' c. playClip now tracks s c e') e clips) =
           voices e @ List.map_filter (clipVoice now tracks s (trackChains e)) clips
         \<and> list_all (\<lambda>i. i < length (sources (foldl (\<lambda>e' c. playClip now tracks s c e') e clips)))
              (activeSources (foldl (\<lambda>e' c. playClip now tracks s c e') e clips))"
  using assms
proof (induction clips arbitrary: e)
  case Nil
  then show ?case by simp
next
  case (Cons c cs)
  have r: "list_all (\<lambda>i. i < length (sources (playClip now tracks s c e))) (activeSources (playClip now tracks s c e))"
    by (rule playClip_refs [OF Cons.prems])
  have t: "trackChains (playClip now tracks s c e) = trackChains e"
    by (simp add: playClip_fields)
  show ?case
    using Cons.IH [OF r] playClip_voices [OF Cons.prems, of now tracks s c]
    by (simp add: t split: option.splits)
qed

lemma play_Done:
  assumes "wfEngine e"
  shows "\<exists>e'. play clips tracks s e = Done e'
           \<and> voices e' = List.map_filter (clipVoice (clockAt e) tracks s (trackChains e')) clips
           \<and> (\<forall>t \<in> set tracks. trackChains e' (trackIdent t) \<noteq> None)
           \<and> wfEngine e'"
proof -
  let ?e0 = "if isPlaying e then stop e else e"
  let ?e1 = "init ?e0"
  let ?e1' = "?e1\<lparr>isPlaying := True, startTime := fl (clockAt e - s), pausedAt := s\<rparr>"
  have a0: "activeSources ?e0 = []"
    using assms by (auto simp: wfEngine_def stop_fields)
  have c: "ctx ?e1 = Some \<lparr>currentTime = clockAt e\<rparr>"
    by (simp add: ctx_init clockAt_stop)
  have m: "masterGain ?e1 \<noteq> None"
    using assms by (auto simp: wfEngine_def init_def stop_fields)
  obtain e2 where e2: "forEach updateTrackParams tracks ?e1' = Done e2"
      "\<forall>t \<in> set tracks. trackChains e2 (trackIdent t) \<noteq> None"
    using forEach_updateTrackParams_Done [of ?e1' "\<lparr>currentTime = clockAt e\<rparr>" tracks] c m
    by auto
  have e2eq: "e2 = engineOf (forEach updateTrackParams tracks ?e1')"
    using e2(1) by simp
  have a2: "activeSources e2 = []" and c2: "ctx e2 = ctx ?e1" and m2: "masterGain e2 = masterGain ?e1"
    and p2: "isPlaying e2"
    unfolding e2eq by (simp_all add: forEach_updateTrackParams_fields init_fields a0)
  let ?e' = "foldl (\<lambda>e' clip. playClip (clockAt e) tracks s clip e') e2 clips"
  have d: "play clips tracks s e = Done ?e'"
    unfolding play_def Let_def c using e2(1) by simp
  have r2: "list_all (\<lambda>i. i < length (sources e2)) (activeSources e2)"
    by (simp add: a2)
  have v: "voices ?e' = List.map_filter (clipVoice (clockAt e) tracks s (trackChains e2)) clips"
    and refs: "list_all (\<lambda>i. i < length (sources ?e')) (activeSources ?e')"
    using foldl_playClip_voices [OF r2, of "clockAt e" tracks s clips]
    by (simp_all add: voices_def a2)
  have tc: "trackChains ?e' = trackChains e2"
    by (simp add: foldl_playClip_fields)
  have "wfEngine ?e'"
    using refs m c by (simp add: wfEngine_def foldl_playClip_fields p2 m2 c2)
  then show ?thesis
    using d v e2(2) by (simp add: tc)
qed

lemma effectiveRate_pos: "0 \<le> playbackRate track \<Longrightarrow> 0 < effectiveRate track"
  by (simp add: effectiveRate_def)





lemma wfEngine_newEngine: "wfEngine newEngine"
  by (simp add: wfEngine_def newEngine_def)

lemma play_trackChains:
  "trackChains (engineOf (play clips tracks s e)) = trackChains (engineOf (play [] tracks s e))"
  unfolding play_engineOf Let_def
  by (simp add: foldl_playClip_fields)

lemma map_filter_append: "List.map_filter f (xs @ ys) = List.map_filter f xs @ List.map_filter f ys"
  by (simp add: List.map_filter_def)

lemma map_filter_mem: "x \<in> set xs \<Longrightarrow> f x = Some y \<Longrightarrow> y \<in> set (List.map_filter f xs)"
  by (force simp: List.map_filter_def)

lemma clipVoice_unplayable:
  assumes "find (\<lambda>t. trackIdent t = trackId clip) tracks = Some track"
    and "durationOfBufferToPlay s (effectiveRate track) clip \<le> 0
         \<or> duration (buffer clip) \<le> offsetInBuffer s (effectiveRate track) clip"
  shows "clipVoice now tracks s reg clip = None"
  using assms by (auto simp: clipVoice_def)


section \<open>Scheduling in schedulePlayback\<close>

lemma playSource_fields:
  "bufferMap (engineOf (playSource buf dest w off d e)) = bufferMap e"
  "trackNodes (engineOf (playSource buf dest w off d e)) = trackNodes e"
  "svcCtx (engineOf (playSource buf dest w off d e)) = svcCtx e"
  by (simp_all add: playSource_def Let_def split: sum.splits)

lemma scheduleClip_closed:
  "scheduleClip now s clip e =
     (case bufferMap e (bufferId clip) of
        None \<Rightarrow> Done e
      | Some buf \<Rightarrow>
          (case trackNodes e (svcTrackId clip) of
             None \<Rightarrow> Done e
           | Some nodes \<Rightarrow>
               (case svcStartArgs now s clip of
                  None \<Rightarrow> Done e
                | Some (w, off, d) \<Rightarrow> playSource buf (ChainInput (svcTrackId clip)) w off d e)))"
  by (simp add: scheduleClip_def svcStartArgs_def Let_def split: option.splits)

lemma scheduleClip_fields:
  "bufferMap (engineOf (scheduleClip now s clip e)) = bufferMap e"
  "trackNodes (engineOf (scheduleClip now s clip e)) = trackNodes e"
  unfolding scheduleClip_closed
  by (simp_all add: playSource_fields split: option.splits prod.splits)

lemma scheduleClip_absent:
  "bufferMap e (bufferId clip) = None \<or> trackNodes e (svcTrackId clip) = None
   \<Longrightarrow> scheduleClip now s clip e = Done e"
  unfolding scheduleClip_closed by (auto split: option.splits)

lemma forEach_scheduleClip_skip:
  assumes "bufferMap e (bufferId clip) = None \<or> trackNodes e (svcTrackId clip) = None"
  shows "forEach (scheduleClip now s) (xs @ clip # ys) e = forEach (scheduleClip now s) (xs @ ys) e"
  using assms
proof (induction xs arbitrary: e)
  case Nil
  then show ?case by (simp add: scheduleClip_absent)
next
  case (Cons x xs)
  show ?case
  proof (cases "scheduleClip now s x e")
    case (Done e')
    then have "e' = engineOf (scheduleClip now s x e)" by simp
    then have "bufferMap e' = bufferMap e" "trackNodes e' = trackNodes e"
      by (simp_all add: scheduleClip_fields)
    then show ?thesis
      using Cons.IH [of e'] Cons.prems Done by simp
  next
    case (Threw err e')
    then show ?thesis by simp
  qed
qed

lemma svcUpdateTrackParams_fields:
  "bufferMap (svcUpdateTrackParams t e) = bufferMap e"
  "svcSources (svcUpdateTrackParams t e) = svcSources e"
  "svcActiveSources (svcUpdateTrackParams t e) = svcActiveSources e"
  "svcCtx (svcUpdateTrackParams t e) = svcCtx e"
  "(trackNodes (svcUpdateTrackParams t e) k = None) = (trackNodes e k = None)"
  by (simp_all add: svcUpdateTrackParams_def split: option.splits)

lemma setupTrack_fields:
  "bufferMap (setupTrack t e) = bufferMap e"
  "svcSources (setupTrack t e) = svcSources e"
  "svcActiveSources (setupTrack t e) = svcActiveSources e"
  "svcCtx (setupTrack t e) = svcCtx e"
  "(trackNodes (setupTrack t e) k = None) = (trackNodes e k = None \<and> k \<noteq> svcId t)"
  by (auto simp: setupTrack_def svcUpdateTrackParams_fields)

lemma foldl_setupTrack_fields:
  "bufferMap (foldl (\<lambda>e' t. setupTrack t e') e tracks) = bufferMap e"
  "svcSources (foldl (\<lambda>e' t. setupTrack t e') e tracks) = svcSources e"
  "svcActiveSources (foldl (\<lambda>e' t. setupTrack t e') e tracks) = svcActiveSources e"
  "svcCtx (foldl (\<lambda>e' t. setupTrack t e') e tracks) = svcCtx e"
  "(trackNodes (foldl (\<lambda>e' t. setupTrack t e') e tracks) k = None)
     = (trackNodes e k = None \<and> k \<notin> set (map svcId tracks))"
  by (induction tracks arbitrary: e) (auto simp: setupTrack_fields)

lemma afterSetup_fields:
  "bufferMap (afterSetup tracks e) = bufferMap e"
  "svcActiveSources (afterSetup tracks e) = []"
  "svcCtx (afterSetup tracks e) = svcCtx e"
  "(trackNodes (afterSetup tracks e) k = None) = (trackNodes e k = None \<and> k \<notin> set (map svcId tracks))"
  by (simp_all add: afterSetup_def foldl_setupTrack_fields stopAll_def)

lemma schedulePlayback_afterSetup:
  "schedulePlayback clips s tracks e =
     forEach (scheduleClip (currentTime (svcCtx e)) s) clips (afterSetup tracks e)"
  by (simp add: schedulePlayback_def afterSetup_def Let_def foldl_setupTrack_fields stopAll_def)

lemma playSource_Done:
  assumes "playSource buf dest w off d e = Done e'" and "wfSvcEngine e"
  shows "svcVoices e' = svcVoices e @ [voice buf 1 dest w off d]" and "wfSvcEngine e'"
proof -
  have ok: "\<not> (w < 0 \<or> off < 0 \<or> d < 0)"
    using assms(1) by (auto simp: playSource_def Let_def sourceStart_def newSource_def split: if_splits)
  then have e': "e' = e\<lparr>svcSources := svcSources e @ [voice buf 1 dest w off d],
                        svcActiveSources := svcActiveSources e @ [length (svcSources e)]\<rparr>"
    using assms(1) by (simp add: playSource_def Let_def sourceStart_def newSource_def voice_def)
  show "svcVoices e' = svcVoices e @ [voice buf 1 dest w off d]"
    using assms(2) by (simp add: e' svcVoices_def wfSvcEngine_def list_all_iff nth_append)
  show "wfSvcEngine e'"
    using assms(2) by (auto simp: e' wfSvcEngine_def list_all_iff)
qed

lemma playSource_Done_iff:
  "(\<exists>e'. playSource buf dest w off d e = Done e') = (0 \<le> w \<and> 0 \<le> off \<and> 0 \<le> d)"
  by (auto simp: playSource_def Let_def sourceStart_def newSource_def)

lemma scheduleClip_Done:
  assumes "scheduleClip now s clip e = Done e'" and "wfSvcEngine e"
  shows "svcVoices e' = svcVoices e @ (case svcLiveVoice now s e clip of None \<Rightarrow> [] | Some n \<Rightarrow> [n])"
    and "wfSvcEngine e'"
  using assms unfolding scheduleClip_closed svcLiveVoice_def
  by (auto split: option.splits prod.splits dest: playSource_Done)

lemma svcLiveVoice_cong:
  "bufferMap e' = bufferMap e \<Longrightarrow> trackNodes e' = trackNodes e
   \<Longrightarrow> svcLiveVoice now s e' clip = svcLiveVoice now s e clip"
  by (simp add: svcLiveVoice_def split: option.splits)

lemma forEach_scheduleClip_voices:
  assumes "forEach (scheduleClip now s) clips e = Done e'" and "wfSvcEngine e"
  shows "svcVoices e' = svcVoices e @ List.map_filter (svcLiveVoice now s e) clips"
  using assms
proof (induction clips arbitrary: e)
  case Nil
  then show ?case by simp
next
  case (Cons c cs)
  from Cons.prems(1) obtain e1 where e1: "scheduleClip now s c e = Done e1"
      "forEach (scheduleClip now s) cs e1 = Done e'"
    by (auto split: outcome.splits)
  have "e1 = engineOf (scheduleClip now s c e)" using e1(1) by simp
  then have same: "bufferMap e1 = bufferMap e" "trackNodes e1 = trackNodes e"
    by (simp_all add: scheduleClip_fields)
  have v: "svcVoices e1 = svcVoices e @ (case svcLiveVoice now s e c of None \<Rightarrow> [] | Some n \<Rightarrow> [n])"
    and w: "wfSvcEngine e1"
    using scheduleClip_Done [OF e1(1) Cons.prems(2)] by simp_all
  have "List.map_filter (svcLiveVoice now s e1) cs = List.map_filter (svcLiveVoice now s e) cs"
    using svcLiveVoice_cong [OF same] by (simp add: List.map_filter_def)
  then show ?case
    using Cons.IH [OF e1(2) w] v by (simp split: option.splits)
qed

lemma schedulePlayback_voices:
  assumes "schedulePlayback clips s tracks e = Done e'"
  shows "svcVoices e' =
           List.map_filter (svcLiveVoice (currentTime (svcCtx e)) s (afterSetup tracks e)) clips"
proof -
  have w: "wfSvcEngine (afterSetup tracks e)"
    by (simp add: wfSvcEngine_def afterSetup_fields)
  have "svcVoices (afterSetup tracks e) = []"
    by (simp add: svcVoices_def afterSetup_fields)
  then show ?thesis
    using forEach_scheduleClip_voices [OF assms [unfolded schedulePlayback_afterSetup] w] by simp
qed

text \<open>
  The call returns when no \<^verbatim>\<open>start\<close> is given a negative argument. For a clip that starts
  before the seek point and passes the test on its end, the remaining duration computed is
  not negative, because the seek point and the duration are binary64 values.
\<close>

lemma svcStartArgs_nonneg:
  assumes "0 \<le> now" "isDouble s" "0 \<le> svcOffset c" "0 \<le> svcDuration c" "isDouble (svcDuration c)"
    and "svcStartArgs now s c = Some (w, off, d)"
  shows "0 \<le> w \<and> 0 \<le> off \<and> 0 \<le> d"
proof (cases "svcStartTime c \<ge> s")
  case True
  have "0 \<le> fl (now + fl (svcStartTime c - s))"
    using True assms(1) by (intro fl_nonneg add_nonneg_nonneg) simp_all
  then show ?thesis
    using True assms by (simp add: svcStartArgs_def)
next
  case False
  then have lt: "svcStartTime c < s" by simp
  have p: "0 \<le> fl (s - svcStartTime c)"
    using lt by (intro fl_nonneg) simp
  have o: "0 \<le> fl (svcOffset c + fl (s - svcStartTime c))"
    using p assms(3) by (intro fl_nonneg) simp
  have e: "fl (svcStartTime c + svcDuration c) > s"
    using False assms(6) by (simp add: svcStartArgs_def split: if_splits)
  have "\<not> svcStartTime c + svcDuration c \<le> s"
  proof
    assume "svcStartTime c + svcDuration c \<le> s"
    then have "fl (svcStartTime c + svcDuration c) \<le> fl s" by (rule fl_mono)
    then show False using e assms(2) by (simp add: isDouble_def)
  qed
  then have "s - svcStartTime c \<le> svcDuration c" by simp
  then have "fl (s - svcStartTime c) \<le> fl (svcDuration c)" by (rule fl_mono)
  then have "0 \<le> svcDuration c - fl (s - svcStartTime c)"
    using assms(5) by (simp add: isDouble_def)
  then have "0 \<le> fl (svcDuration c - fl (s - svcStartTime c))"
    by (rule fl_nonneg)
  then show ?thesis
    using False e o assms(1,6) by (auto simp: svcStartArgs_def)
qed

lemma forEach_scheduleClip_Done:
  assumes "0 \<le> now" and "isDouble s"
    and "\<forall>c \<in> set clips. 0 \<le> svcOffset c \<and> 0 \<le> svcDuration c \<and> isDouble (svcDuration c)"
  shows "\<exists>e'. forEach (scheduleClip now s) clips e = Done e'"
  using assms(3)
proof (induction clips arbitrary: e)
  case Nil
  then show ?case by simp
next
  case (Cons c cs)
  have "\<exists>e1. scheduleClip now s c e = Done e1"
  proof (cases "svcStartArgs now s c")
    case None
    then show ?thesis
      unfolding scheduleClip_closed by (simp split: option.splits)
  next
    case (Some a)
    obtain w off d where a: "a = (w, off, d)" by (cases a)
    have "0 \<le> w \<and> 0 \<le> off \<and> 0 \<le> d"
      using svcStartArgs_nonneg [OF assms(1,2) _ _ _ Some [unfolded a]] Cons.prems by simp
    then show ?thesis
      unfolding scheduleClip_closed using Some a playSource_Done_iff
      by (auto split: option.splits)
  qed
  then obtain e1 where "scheduleClip now s c e = Done e1" by blast
  then show ?case
    using Cons.IH [of e1] Cons.prems by simp
qed

section \<open>What the two schedulers start for a clip\<close>

lemma svcLiveVoice_cases:
  assumes "bufferMap e (bufferId clip) = Some buf" "t \<in> set tracks" "svcId t = svcTrackId clip"
  shows "svcLiveVoice now s (afterSetup tracks e) clip =
           (if svcStartTime clip \<ge> s
            then Some (voice buf 1 (ChainInput (svcTrackId clip))
                         (fl (now + fl (svcStartTime clip - s))) (svcOffset clip) (svcDuration clip))
            else if fl (svcStartTime clip + svcDuration clip) > s
            then Some (voice buf 1 (ChainInput (svcTrackId clip)) now
                         (fl (svcOffset clip + fl (s - svcStartTime clip)))
                         (fl (svcDuration clip - fl (s - svcStartTime clip))))
            else None)"
proof -
  have "svcTrackId clip \<in> set (map svcId tracks)"
    using assms(2,3) by force
  then have "trackNodes (afterSetup tracks e) (svcTrackId clip) \<noteq> None"
    by (simp add: afterSetup_fields)
  then show ?thesis
    using assms(1) by (auto simp: svcLiveVoice_def svcStartArgs_def afterSetup_fields split: option.splits)
qed

lemma schedulePlayback_Done:
  assumes "0 \<le> currentTime (svcCtx e)" and "isDouble s"
    and "\<forall>c \<in> set clips. 0 \<le> svcOffset c \<and> 0 \<le> svcDuration c \<and> isDouble (svcDuration c)"
  shows "\<exists>e'. schedulePlayback clips s tracks e = Done e'
           \<and> svcVoices e' =
               List.map_filter (svcLiveVoice (currentTime (svcCtx e)) s (afterSetup tracks e)) clips"
proof -
  obtain e' where e': "schedulePlayback clips s tracks e = Done e'"
    unfolding schedulePlayback_afterSetup
    using forEach_scheduleClip_Done [OF assms] by blast
  then show ?thesis
    using schedulePlayback_voices [OF e'] by blast
qed


lemma fl_small:
  "fl 0 = 0" "fl 1 = 1" "fl 2 = 2" "fl 3 = 3" "fl 7 = 7" "fl (1 / 2) = 1 / 2" "fl (3 / 2) = 3 / 2"
  "fl (9 / 2) = 9 / 2" "fl (5 / 2) = 5 / 2"
  by (simp_all add: fl_eval)



text \<open>
  C3, as amended. In \<open>play\<close>, a clip whose computed duration to play is not positive, or
  whose computed read offset is not before the end of its buffer, gets no voice; \<open>play\<close>
  returns without a throw, and the voices it leaves are those it leaves when the clip is not
  in the list. \<open>schedulePlayback\<close> makes neither test: when it returns, a clip whose
  buffer and track are found and which starts at or after the seek point, or whose
  startTime + duration is after it, has its voice among those started, with the offset and
  the duration computed for it whatever they are.
\<close>

theorem play_skips_unplayable:
  assumes "wfEngine e"
    and "find (\<lambda>t. trackIdent t = trackId clip) tracks = Some track"
    and "durationOfBufferToPlay atTime (effectiveRate track) clip \<le> 0
         \<or> duration (buffer clip) \<le> offsetInBuffer atTime (effectiveRate track) clip"
    and "schedulePlayback sclips seek stracks se = Done se'"
    and "sclip \<in> set sclips" and "bufferMap se (bufferId sclip) = Some buf"
    and "t \<in> set stracks" and "svcId t = svcTrackId sclip"
  shows "(\<exists>e1 e2. play (xs @ clip # ys) tracks atTime e = Done e1
           \<and> play (xs @ ys) tracks atTime e = Done e2
           \<and> voices e1 = voices e2
           \<and> clipVoice (clockAt e) tracks atTime (trackChains e1) clip = None)
     \<and> (svcStartTime sclip \<ge> seek \<longrightarrow>
           voice buf 1 (ChainInput (svcTrackId sclip))
             (fl (currentTime (svcCtx se) + fl (svcStartTime sclip - seek)))
             (svcOffset sclip) (svcDuration sclip) \<in> set (svcVoices se'))
     \<and> (\<not> svcStartTime sclip \<ge> seek \<and> fl (svcStartTime sclip + svcDuration sclip) > seek \<longrightarrow>
           voice buf 1 (ChainInput (svcTrackId sclip)) (currentTime (svcCtx se))
             (fl (svcOffset sclip + fl (seek - svcStartTime sclip)))
             (fl (svcDuration sclip - fl (seek - svcStartTime sclip))) \<in> set (svcVoices se'))"
proof (intro conjI impI)
  obtain e1 where e1: "play (xs @ clip # ys) tracks atTime e = Done e1"
      "voices e1 = List.map_filter (clipVoice (clockAt e) tracks atTime (trackChains e1)) (xs @ clip # ys)"
    using play_Done [OF assms(1)] by blast
  obtain e2 where e2: "play (xs @ ys) tracks atTime e = Done e2"
      "voices e2 = List.map_filter (clipVoice (clockAt e) tracks atTime (trackChains e2)) (xs @ ys)"
    using play_Done [OF assms(1)] by blast
  have n: "clipVoice (clockAt e) tracks atTime reg clip = None" for reg
    using assms(2,3) by (rule clipVoice_unplayable)
  have "trackChains e1 = trackChains e2"
    using play_trackChains [of "xs @ clip # ys" tracks atTime e]
          play_trackChains [of "xs @ ys" tracks atTime e] e1(1) e2(1)
    by simp
  then have "voices e1 = voices e2"
    by (simp add: e1(2) e2(2) map_filter_append n)
  then show "\<exists>e1 e2. play (xs @ clip # ys) tracks atTime e = Done e1
           \<and> play (xs @ ys) tracks atTime e = Done e2
           \<and> voices e1 = voices e2
           \<and> clipVoice (clockAt e) tracks atTime (trackChains e1) clip = None"
    using e1(1) e2(1) n by blast
next
  note v = schedulePlayback_voices [OF assms(4)]
  note c = svcLiveVoice_cases [OF assms(6,7,8), of "currentTime (svcCtx se)" seek]
  {
    assume "svcStartTime sclip \<ge> seek"
    then have "svcLiveVoice (currentTime (svcCtx se)) seek (afterSetup stracks se) sclip
                 = Some (voice buf 1 (ChainInput (svcTrackId sclip))
                           (fl (currentTime (svcCtx se) + fl (svcStartTime sclip - seek)))
                           (svcOffset sclip) (svcDuration sclip))"
      by (simp add: c)
    then show "voice buf 1 (ChainInput (svcTrackId sclip))
             (fl (currentTime (svcCtx se) + fl (svcStartTime sclip - seek)))
             (svcOffset sclip) (svcDuration sclip) \<in> set (svcVoices se')"
      unfolding v using assms(5) by (rule map_filter_mem [rotated])
  }
  {
    assume "\<not> svcStartTime sclip \<ge> seek \<and> fl (svcStartTime sclip + svcDuration sclip) > seek"
    then have "svcLiveVoice (currentTime (svcCtx se)) seek (afterSetup stracks se) sclip
                 = Some (voice buf 1 (ChainInput (svcTrackId sclip)) (currentTime (svcCtx se))
                           (fl (svcOffset sclip + fl (seek - svcStartTime sclip)))
                           (fl (svcDuration sclip - fl (seek - svcStartTime sclip))))"
      by (simp add: c)
    then show "voice buf 1 (ChainInput (svcTrackId sclip)) (currentTime (svcCtx se))
             (fl (svcOffset sclip + fl (seek - svcStartTime sclip)))
             (fl (svcDuration sclip - fl (seek - svcStartTime sclip))) \<in> set (svcVoices se')"
      unfolding v using assms(5) by (rule map_filter_mem [rotated])
  }
qed

lemma svcDemo_facts:
  "currentTime (svcCtx svcDemoEngine) = 0"
  "bufferMap svcDemoEngine ''b1'' = Some demoBuffer"
  by (simp_all add: svcDemoEngine_def addBuffer_def newSvcEngine_def)

lemma schedule_unplayable:
  "schedulePlayback [svcClipEmpty, svcClipBeyond] 0 [svcDemoTrack] svcDemoEngine
     = Done (engineOf (schedulePlayback [svcClipEmpty, svcClipBeyond] 0 [svcDemoTrack] svcDemoEngine))"
  "svcVoices (engineOf (schedulePlayback [svcClipEmpty, svcClipBeyond] 0 [svcDemoTrack] svcDemoEngine))
     = [voice demoBuffer 1 (ChainInput ''t1'') 1 0 0, voice demoBuffer 1 (ChainInput ''t1'') 1 3 1]"
proof -
  have "\<forall>c \<in> set [svcClipEmpty, svcClipBeyond]. 0 \<le> svcOffset c \<and> 0 \<le> svcDuration c \<and> isDouble (svcDuration c)"
    by (simp add: svcClipEmpty_def svcClipBeyond_def isDouble_small)
  then obtain se' where d: "schedulePlayback [svcClipEmpty, svcClipBeyond] 0 [svcDemoTrack] svcDemoEngine = Done se'"
    and v: "svcVoices se' = List.map_filter (svcLiveVoice (currentTime (svcCtx svcDemoEngine)) 0
                               (afterSetup [svcDemoTrack] svcDemoEngine)) [svcClipEmpty, svcClipBeyond]"
    using schedulePlayback_Done [of svcDemoEngine 0 "[svcClipEmpty, svcClipBeyond]" "[svcDemoTrack]"]
    by (auto simp: svcDemo_facts isDouble_small)
  have t: "svcDemoTrack \<in> set [svcDemoTrack]" by simp
  have v1: "svcLiveVoice 0 0 (afterSetup [svcDemoTrack] svcDemoEngine) svcClipEmpty
              = Some (voice demoBuffer 1 (ChainInput ''t1'') 1 0 0)"
    by (subst svcLiveVoice_cases [OF _ t, of _ _ demoBuffer])
       (simp_all add: svcClipEmpty_def svcDemoTrack_def svcDemo_facts fl_small)
  have v2: "svcLiveVoice 0 0 (afterSetup [svcDemoTrack] svcDemoEngine) svcClipBeyond
              = Some (voice demoBuffer 1 (ChainInput ''t1'') 1 3 1)"
    by (subst svcLiveVoice_cases [OF _ t, of _ _ demoBuffer])
       (simp_all add: svcClipBeyond_def svcDemoTrack_def svcDemo_facts fl_small)
  show "schedulePlayback [svcClipEmpty, svcClipBeyond] 0 [svcDemoTrack] svcDemoEngine
     = Done (engineOf (schedulePlayback [svcClipEmpty, svcClipBeyond] 0 [svcDemoTrack] svcDemoEngine))"
    by (simp add: d)
  show "svcVoices (engineOf (schedulePlayback [svcClipEmpty, svcClipBeyond] 0 [svcDemoTrack] svcDemoEngine))
     = [voice demoBuffer 1 (ChainInput ''t1'') 1 0 0, voice demoBuffer 1 (ChainInput ''t1'') 1 3 1]"
    by (simp add: d v svcDemo_facts v1 v2)
qed

lemma schedule_inside:
  "schedulePlayback [svcClipInside] (1 / 2) [svcDemoTrack] svcDemoEngine
     = Done (engineOf (schedulePlayback [svcClipInside] (1 / 2) [svcDemoTrack] svcDemoEngine))"
proof -
  have "\<forall>c \<in> set [svcClipInside]. 0 \<le> svcOffset c \<and> 0 \<le> svcDuration c \<and> isDouble (svcDuration c)"
    by (simp add: svcClipInside_def isDouble_small)
  then obtain se' where d: "schedulePlayback [svcClipInside] (1 / 2) [svcDemoTrack] svcDemoEngine = Done se'"
    using schedulePlayback_Done [of svcDemoEngine "1 / 2" "[svcClipInside]" "[svcDemoTrack]"]
    by (auto simp: svcDemo_facts isDouble_small)
  then show ?thesis by simp
qed

theorem play_skips_unplayable_witness:
  "wfEngine newEngine
   \<and> find (\<lambda>t. trackIdent t = trackId clipBeyond) [demoTrack] = Some demoTrack
   \<and> duration (buffer clipBeyond) \<le> offsetInBuffer 0 (effectiveRate demoTrack) clipBeyond
   \<and> \<not> threw (play [clipAhead, clipBeyond] [demoTrack] 0 newEngine)
   \<and> voices (engineOf (play [clipAhead, clipBeyond] [demoTrack] 0 newEngine))
       = voices (engineOf (play [clipAhead] [demoTrack] 0 newEngine))
   \<and> schedulePlayback [svcClipEmpty, svcClipBeyond] 0 [svcDemoTrack] svcDemoEngine
       = Done (engineOf (schedulePlayback [svcClipEmpty, svcClipBeyond] 0 [svcDemoTrack] svcDemoEngine))
   \<and> svcClipEmpty \<in> set [svcClipEmpty, svcClipBeyond]
   \<and> bufferMap svcDemoEngine (bufferId svcClipEmpty) = Some demoBuffer
   \<and> svcDemoTrack \<in> set [svcDemoTrack] \<and> svcId svcDemoTrack = svcTrackId svcClipEmpty
   \<and> svcStartTime svcClipEmpty \<ge> 0
   \<and> voice demoBuffer 1 (ChainInput ''t1'') 1 0 0
       \<in> set (svcVoices (engineOf (schedulePlayback [svcClipEmpty, svcClipBeyond] 0 [svcDemoTrack] svcDemoEngine)))
   \<and> schedulePlayback [svcClipInside] (1 / 2) [svcDemoTrack] svcDemoEngine
       = Done (engineOf (schedulePlayback [svcClipInside] (1 / 2) [svcDemoTrack] svcDemoEngine))
   \<and> svcClipInside \<in> set [svcClipInside]
   \<and> bufferMap svcDemoEngine (bufferId svcClipInside) = Some demoBuffer
   \<and> svcId svcDemoTrack = svcTrackId svcClipInside
   \<and> \<not> svcStartTime svcClipInside \<ge> 1 / 2
   \<and> fl (svcStartTime svcClipInside + svcDuration svcClipInside) > 1 / 2
   \<and> voice demoBuffer 1 (ChainInput ''t1'') 0 (1 / 2) (3 / 2)
       \<in> set (svcVoices (engineOf (schedulePlayback [svcClipInside] (1 / 2) [svcDemoTrack] svcDemoEngine)))"
proof -
  have f: "find (\<lambda>t. trackIdent t = trackId clipBeyond) [demoTrack] = Some demoTrack"
    by (simp add: clipBeyond_def demoTrack_def)
  have g: "duration (buffer clipBeyond) \<le> offsetInBuffer 0 (effectiveRate demoTrack) clipBeyond"
    by (simp add: clipBeyond_def demoBuffer_def offsetInBuffer_def)
  have m1: "svcClipEmpty \<in> set [svcClipEmpty, svcClipBeyond]" and m2: "svcClipInside \<in> set [svcClipInside]"
    and t: "svcDemoTrack \<in> set [svcDemoTrack]"
    by simp_all
  have b1: "bufferMap svcDemoEngine (bufferId svcClipEmpty) = Some demoBuffer"
    and b2: "bufferMap svcDemoEngine (bufferId svcClipInside) = Some demoBuffer"
    by (simp_all add: svcClipEmpty_def svcClipInside_def svcDemo_facts)
  have i1: "svcId svcDemoTrack = svcTrackId svcClipEmpty" and i2: "svcId svcDemoTrack = svcTrackId svcClipInside"
    by (simp_all add: svcClipEmpty_def svcClipInside_def svcDemoTrack_def)
  have h1: "svcStartTime svcClipEmpty \<ge> 0"
    and h2: "\<not> svcStartTime svcClipInside \<ge> 1 / 2"
    and h3: "fl (svcStartTime svcClipInside + svcDuration svcClipInside) > 1 / 2"
    by (simp_all add: svcClipEmpty_def svcClipInside_def fl_small)
  note inst1 = play_skips_unplayable [OF wfEngine_newEngine f disjI2 [OF g] schedule_unplayable(1) m1 b1 t i1,
                  of "[clipAhead]" "[]"]
  note inst2 = play_skips_unplayable [OF wfEngine_newEngine f disjI2 [OF g] schedule_inside m2 b2 t i2,
                  of "[clipAhead]" "[]"]
  from inst1 [THEN conjunct1]
  obtain e1 e2 where "play [clipAhead, clipBeyond] [demoTrack] 0 newEngine = Done e1"
    "play [clipAhead] [demoTrack] 0 newEngine = Done e2" "voices e1 = voices e2"
    by auto
  then have p: "\<not> threw (play [clipAhead, clipBeyond] [demoTrack] 0 newEngine)"
    "voices (engineOf (play [clipAhead, clipBeyond] [demoTrack] 0 newEngine))
       = voices (engineOf (play [clipAhead] [demoTrack] 0 newEngine))"
    by simp_all
  have "voice demoBuffer 1 (ChainInput (svcTrackId svcClipEmpty))
          (fl (currentTime (svcCtx svcDemoEngine) + fl (svcStartTime svcClipEmpty - 0)))
          (svcOffset svcClipEmpty) (svcDuration svcClipEmpty)
        \<in> set (svcVoices (engineOf (schedulePlayback [svcClipEmpty, svcClipBeyond] 0 [svcDemoTrack] svcDemoEngine)))"
    using inst1 [THEN conjunct2, THEN conjunct1] h1 by (rule mp)
  then have v1: "voice demoBuffer 1 (ChainInput ''t1'') 1 0 0
       \<in> set (svcVoices (engineOf (schedulePlayback [svcClipEmpty, svcClipBeyond] 0 [svcDemoTrack] svcDemoEngine)))"
    by (simp add: svcClipEmpty_def svcDemo_facts fl_small)
  have "voice demoBuffer 1 (ChainInput (svcTrackId svcClipInside)) (currentTime (svcCtx svcDemoEngine))
          (fl (svcOffset svcClipInside + fl (1 / 2 - svcStartTime svcClipInside)))
          (fl (svcDuration svcClipInside - fl (1 / 2 - svcStartTime svcClipInside)))
        \<in> set (svcVoices (engineOf (schedulePlayback [svcClipInside] (1 / 2) [svcDemoTrack] svcDemoEngine)))"
    using inst2 [THEN conjunct2, THEN conjunct2] conjI [OF h2 h3] by (rule mp)
  then have v2: "voice demoBuffer 1 (ChainInput ''t1'') 0 (1 / 2) (3 / 2)
       \<in> set (svcVoices (engineOf (schedulePlayback [svcClipInside] (1 / 2) [svcDemoTrack] svcDemoEngine)))"
    by (simp add: svcClipInside_def svcDemo_facts fl_small)
  show ?thesis
    by (intro conjI wfEngine_newEngine f g p schedule_unplayable(1) m1 b1 t i1 h1 v1 schedule_inside m2 b2 i2 h2 h3 v2)
qed

theorem play_skips_unplayable_counterexample:
  "bufferMap svcDemoEngine (bufferId svcClipEmpty) = Some demoBuffer
   \<and> bufferMap svcDemoEngine (bufferId svcClipBeyond) = Some demoBuffer
   \<and> svcTrackId svcClipEmpty = svcId svcDemoTrack \<and> svcTrackId svcClipBeyond = svcId svcDemoTrack
   \<and> svcDuration svcClipEmpty \<le> 0
   \<and> \<not> svcOffset svcClipBeyond < duration demoBuffer
   \<and> \<not> threw (schedulePlayback [svcClipEmpty, svcClipBeyond] 0 [svcDemoTrack] svcDemoEngine)
   \<and> svcVoices (engineOf (schedulePlayback [svcClipEmpty, svcClipBeyond] 0 [svcDemoTrack] svcDemoEngine))
       = [voice demoBuffer 1 (ChainInput ''t1'') 1 0 0, voice demoBuffer 1 (ChainInput ''t1'') 1 3 1]"
proof -
  have n: "\<not> threw (schedulePlayback [svcClipEmpty, svcClipBeyond] 0 [svcDemoTrack] svcDemoEngine)"
    by (subst schedule_unplayable(1)) simp
  have b: "bufferMap svcDemoEngine (bufferId svcClipEmpty) = Some demoBuffer"
      "bufferMap svcDemoEngine (bufferId svcClipBeyond) = Some demoBuffer"
      "svcTrackId svcClipEmpty = svcId svcDemoTrack" "svcTrackId svcClipBeyond = svcId svcDemoTrack"
      "svcDuration svcClipEmpty \<le> 0" "\<not> svcOffset svcClipBeyond < duration demoBuffer"
    by (simp_all add: svcClipEmpty_def svcClipBeyond_def svcDemoTrack_def svcDemo_facts demoBuffer_def)
  show ?thesis
    by (intro conjI b n schedule_unplayable(2))
qed

section \<open>The offline graphs\<close>

lemma sourceStart_new:
  "sourceStart w off d (newSource\<lparr>srcBuffer := Some buf, srcPlaybackRate := r, srcDest := Some dest\<rparr>) =
     (if w < 0 \<or> off < 0 \<or> d < 0 then Inl RangeError else Inr (voice buf r dest w off d))"
  "sourceStart w off d (newSource\<lparr>srcBuffer := Some buf, srcDest := Some dest\<rparr>) =
     (if w < 0 \<or> off < 0 \<or> d < 0 then Inl RangeError else Inr (voice buf 1 dest w off d))"
  by (simp_all add: sourceStart_def newSource_def voice_def)

lemma find_snoc:
  "find P (xs @ [x]) = (case find P xs of None \<Rightarrow> (if P x then Some x else None) | Some y \<Rightarrow> Some y)"
  by (induction xs) auto


lemma foldl_svcAddOfflineChain:
  "offChains (foldl svcAddOfflineChain g tracks) k =
     (case find (\<lambda>t. svcId t = k) (rev tracks) of
        None \<Rightarrow> offChains g k
      | Some t \<Rightarrow> Some (svcOfflineChain t))"
  "offChannels (foldl svcAddOfflineChain g tracks) = offChannels g"
  "offLength (foldl svcAddOfflineChain g tracks) = offLength g"
  "offSampleRate (foldl svcAddOfflineChain g tracks) = offSampleRate g"
  "offSources (foldl svcAddOfflineChain g tracks) = offSources g"
  by (induction tracks rule: rev_induct)
     (auto simp: svcAddOfflineChain_def split: option.splits)

lemma find_None_set: "(find P xs = None) = (\<forall>x \<in> set xs. \<not> P x)"
  by (induction xs) auto

lemma find_rev_None: "(find P (rev xs) = None) = (find P xs = None)"
  by (simp add: find_None_set)





lemma exportClip_closed:
  assumes "\<And>k. (offChains g k \<noteq> None) = (k \<in> set (map svcId tracks))"
  shows "exportClip e clip g =
     (case svcOfflineVoice e tracks clip of
        None \<Rightarrow> Inr g
      | Some v \<Rightarrow>
          if svcStartTime clip < 0 \<or> svcOffset clip < 0 \<or> svcDuration clip < 0
          then Inl RangeError
          else Inr (g\<lparr>offSources := offSources g @ [v]\<rparr>))"
proof (cases "offChains g (svcTrackId clip)")
  case None
  then have "svcTrackId clip \<notin> set (map svcId tracks)"
    using assms [of "svcTrackId clip"] by simp
  then show ?thesis
    using None by (simp add: exportClip_def svcOfflineVoice_def split: option.splits)
next
  case (Some ch)
  then have "svcTrackId clip \<in> set (map svcId tracks)"
    using assms [of "svcTrackId clip"] by simp
  then show ?thesis
    using Some by (simp add: exportClip_def svcOfflineVoice_def sourceStart_new split: option.splits)
qed

lemma exportClip_fields:
  assumes "exportClip e clip g = Inr g'"
  shows "offChains g' = offChains g" "offChannels g' = offChannels g" "offLength g' = offLength g"
    "offSampleRate g' = offSampleRate g"
  using assms
  by (auto simp: exportClip_def split: option.splits if_splits sum.splits)

lemma forEachE_exportClip:
  assumes "forEachE (exportClip e) clips g = Inr g'"
    and "\<And>k. (offChains g k \<noteq> None) = (k \<in> set (map svcId tracks))"
  shows "offSources g' = offSources g @ List.map_filter (svcOfflineVoice e tracks) clips
         \<and> offChains g' = offChains g \<and> offChannels g' = offChannels g
         \<and> offLength g' = offLength g \<and> offSampleRate g' = offSampleRate g"
  using assms
proof (induction clips arbitrary: g)
  case Nil
  then show ?case by simp
next
  case (Cons c cs)
  from Cons.prems(1) obtain g1 where g1: "exportClip e c g = Inr g1"
      "forEachE (exportClip e) cs g1 = Inr g'"
    by (auto split: sum.splits)
  have f: "offChains g1 = offChains g" "offChannels g1 = offChannels g" "offLength g1 = offLength g"
    "offSampleRate g1 = offSampleRate g"
    using exportClip_fields [OF g1(1)] by simp_all
  have s: "offSources g1 = offSources g @ (case svcOfflineVoice e tracks c of None \<Rightarrow> [] | Some v \<Rightarrow> [v])"
    using g1(1) unfolding exportClip_closed [of g tracks, OF Cons.prems(2)]
    by (auto split: option.splits if_splits)
  have "\<And>k. (offChains g1 k \<noteq> None) = (k \<in> set (map svcId tracks))"
    using Cons.prems(2) f by simp
  from Cons.IH [OF g1(2) this] show ?case
    by (simp add: f s split: option.splits)
qed

lemma forEachE_exportClip_Inr:
  assumes "\<forall>c \<in> set clips. 0 \<le> svcStartTime c \<and> 0 \<le> svcOffset c \<and> 0 \<le> svcDuration c"
  shows "\<exists>g'. forEachE (exportClip e) clips g = Inr g'"
  using assms
proof (induction clips arbitrary: g)
  case Nil
  then show ?case by simp
next
  case (Cons c cs)
  have "\<exists>g1. exportClip e c g = Inr g1"
    using Cons.prems
    by (auto simp: exportClip_def sourceStart_new split: option.splits)
  then obtain g1 where "exportClip e c g = Inr g1" by blast
  then show ?case
    using Cons.IH [of g1] Cons.prems by simp
qed

lemma find_SomeD: "find P xs = Some x \<Longrightarrow> x \<in> set xs \<and> P x"
  by (induction xs) (auto split: if_splits)

lemma forEachE_exportClip_skip:
  assumes "bufferMap e (bufferId clip) = None \<or> offChains g (svcTrackId clip) = None"
  shows "forEachE (exportClip e) (xs @ clip # ys) g = forEachE (exportClip e) (xs @ ys) g"
  using assms
proof (induction xs arbitrary: g)
  case Nil
  then show ?case by (auto simp: exportClip_def split: option.splits)
next
  case (Cons x xs)
  show ?case
  proof (cases "exportClip e x g")
    case (Inl err)
    then show ?thesis by simp
  next
    case (Inr g1)
    then have "offChains g1 = offChains g" by (rule exportClip_fields)
    then show ?thesis
      using Cons.IH [of g1] Cons.prems Inr by simp
  qed
qed

lemma exportProjectGraph_skip:
  assumes "bufferMap e (bufferId clip) = None \<or> svcTrackId clip \<notin> set (map svcId tracks)"
  shows "exportProjectGraph (xs @ clip # ys) tracks totalDuration e = exportProjectGraph (xs @ ys) tracks totalDuration e"
proof (cases "newOfflineContext 2 \<lceil>fl (totalDuration * 44100)\<rceil> 44100")
  case (Inl err)
  then show ?thesis by (simp add: exportProjectGraph_def)
next
  case (Inr g0)
  then have "offChains g0 = (\<lambda>k. None)"
    by (auto simp: newOfflineContext_def split: if_splits)
  moreover have "find (\<lambda>t. svcId t = svcTrackId clip) (rev tracks) = None"
    if "svcTrackId clip \<notin> set (map svcId tracks)"
    using that by (force simp: find_None_set)
  ultimately have "bufferMap e (bufferId clip) = None
             \<or> offChains (foldl svcAddOfflineChain g0 tracks) (svcTrackId clip) = None"
    using assms by (auto simp: foldl_svcAddOfflineChain)
  then show ?thesis
    using Inr by (simp add: exportProjectGraph_def forEachE_exportClip_skip)
qed

text \<open>
  C6. A clip whose \<open>bufferId\<close> is not in \<open>bufferMap\<close>, or whose \<open>trackId\<close> has no chain,
  is passed over by \<open>schedulePlayback\<close> and by \<open>exportProject\<close>: its turn in the loop
  returns at once with the state as it was, and the whole call does exactly what it does
  on the list without the clip. For \<open>schedulePlayback\<close> the chains are those in
  \<open>trackNodes\<close> once the tracks of the call are set up, for \<open>exportProject\<close> those built
  for the tracks of the call.
\<close>

theorem absent_lookup_skips_clip:
  "(bufferMap e (bufferId clip) = None
      \<or> (trackNodes e (svcTrackId clip) = None \<and> svcTrackId clip \<notin> set (map svcId tracks))
    \<longrightarrow> scheduleClip (currentTime (svcCtx e)) atTime clip (afterSetup tracks e) = Done (afterSetup tracks e)
        \<and> schedulePlayback (xs @ clip # ys) atTime tracks e = schedulePlayback (xs @ ys) atTime tracks e)
   \<and> (bufferMap e (bufferId clip) = None \<or> svcTrackId clip \<notin> set (map svcId tracks)
    \<longrightarrow> exportProjectGraph (xs @ clip # ys) tracks totalDuration e = exportProjectGraph (xs @ ys) tracks totalDuration e
        \<and> exportProject startRendering audioBufferToWav (xs @ clip # ys) tracks totalDuration e
            = exportProject startRendering audioBufferToWav (xs @ ys) tracks totalDuration e)"
proof (intro conjI impI)
  assume "bufferMap e (bufferId clip) = None
      \<or> (trackNodes e (svcTrackId clip) = None \<and> svcTrackId clip \<notin> set (map svcId tracks))"
  then have a: "bufferMap (afterSetup tracks e) (bufferId clip) = None
      \<or> trackNodes (afterSetup tracks e) (svcTrackId clip) = None"
    by (auto simp: afterSetup_fields)
  then show "scheduleClip (currentTime (svcCtx e)) atTime clip (afterSetup tracks e) = Done (afterSetup tracks e)"
    by (rule scheduleClip_absent)
  show "schedulePlayback (xs @ clip # ys) atTime tracks e = schedulePlayback (xs @ ys) atTime tracks e"
    unfolding schedulePlayback_afterSetup using a by (rule forEach_scheduleClip_skip)
next
  assume a: "bufferMap e (bufferId clip) = None \<or> svcTrackId clip \<notin> set (map svcId tracks)"
  then show "exportProjectGraph (xs @ clip # ys) tracks totalDuration e = exportProjectGraph (xs @ ys) tracks totalDuration e"
    by (rule exportProjectGraph_skip)
  then show "exportProject startRendering audioBufferToWav (xs @ clip # ys) tracks totalDuration e
            = exportProject startRendering audioBufferToWav (xs @ ys) tracks totalDuration e"
    by (simp add: exportProject_def)
qed

theorem absent_lookup_skips_clip_witness:
  "bufferMap svcDemoEngine (bufferId svcClipNoBuffer) = None
   \<and> trackNodes svcDemoEngine (svcTrackId svcClipNoTrack) = None
   \<and> svcTrackId svcClipNoTrack \<notin> set (map svcId [svcDemoTrack])
   \<and> schedulePlayback [svcClipAhead, svcClipNoBuffer] 0 [svcDemoTrack] svcDemoEngine
       = schedulePlayback [svcClipAhead] 0 [svcDemoTrack] svcDemoEngine
   \<and> schedulePlayback [svcClipNoTrack, svcClipAhead] 0 [svcDemoTrack] svcDemoEngine
       = schedulePlayback [svcClipAhead] 0 [svcDemoTrack] svcDemoEngine
   \<and> exportProjectGraph [svcClipNoTrack, svcClipAhead] [svcDemoTrack] 8 svcDemoEngine
       = exportProjectGraph [svcClipAhead] [svcDemoTrack] 8 svcDemoEngine"
proof -
  have h1: "bufferMap svcDemoEngine (bufferId svcClipNoBuffer) = None"
    by (simp add: svcDemoEngine_def addBuffer_def newSvcEngine_def svcClipNoBuffer_def)
  have h2: "trackNodes svcDemoEngine (svcTrackId svcClipNoTrack) = None
            \<and> svcTrackId svcClipNoTrack \<notin> set (map svcId [svcDemoTrack])"
    by (simp add: svcDemoEngine_def addBuffer_def newSvcEngine_def svcClipNoTrack_def svcDemoTrack_def)
  show ?thesis
    using h1 h2
      absent_lookup_skips_clip [where e = svcDemoEngine and clip = svcClipNoBuffer
        and tracks = "[svcDemoTrack]" and atTime = 0 and xs = "[svcClipAhead]" and ys = "[]"
        and totalDuration = 8 and startRendering = "\<lambda>g. demoBuffer" and audioBufferToWav = "\<lambda>b. b"]
      absent_lookup_skips_clip [where e = svcDemoEngine and clip = svcClipNoTrack
        and tracks = "[svcDemoTrack]" and atTime = 0 and xs = "[]" and ys = "[svcClipAhead]"
        and totalDuration = 8 and startRendering = "\<lambda>g. demoBuffer" and audioBufferToWav = "\<lambda>b. b"]
    by simp
qed

section \<open>The offline renders and the engine state\<close>

lemma exportProjectGraph_bufferMap:
  assumes "bufferMap e1 = bufferMap e2"
  shows "exportProjectGraph clips tracks totalDuration e1 = exportProjectGraph clips tracks totalDuration e2"
proof -
  have "exportClip e1 = exportClip e2"
    by (intro ext) (simp add: exportClip_def assms)
  then show ?thesis
    by (simp add: exportProjectGraph_def split: sum.splits)
qed

text \<open>
  What the offline renders hand to the platform's renderer does not depend on the engine
  state the call is made in: \<open>renderOffline\<close> reads nothing of it, clock included, and
  \<open>exportProject\<close> reads \<open>bufferMap\<close> only. So any two calls with the same arguments
  (and, for \<open>exportProject\<close>, the same \<open>bufferMap\<close>) build the same graph. What the
  renderer, \<^verbatim>\<open>OfflineAudioContext.startRendering\<close>, makes of a graph is not code of the
  engine; here it is a parameter, and nothing is said about it.
\<close>

lemma offline_graph_reads_no_engine_state:
  "renderOfflineGraph clips tracks totalDuration e1 = renderOfflineGraph clips tracks totalDuration e2"
  "bufferMap s1 = bufferMap s2 \<Longrightarrow>
     exportProjectGraph svcClips svcTracks totalDuration s1
       = exportProjectGraph svcClips svcTracks totalDuration s2"
  by (simp_all add: renderOfflineGraph_def exportProjectGraph_bufferMap [of s1 s2])

section \<open>Muted tracks\<close>

lemma playClip_muted:
  "find (\<lambda>t. trackIdent t = trackId clip) tracks = Some track \<Longrightarrow> muted track
   \<Longrightarrow> playClip now tracks s clip e = e"
  by (simp add: playClip_def)

lemma renderClip_muted:
  "find (\<lambda>t. trackIdent t = trackId clip) tracks = Some track \<Longrightarrow> muted track
   \<Longrightarrow> renderClip tracks clip g = Inr g"
  by (simp add: renderClip_def)

lemma forEachE_skip:
  assumes "\<And>g. f c g = Inr g"
  shows "forEachE f (xs @ c # ys) g = forEachE f (xs @ ys) g"
  by (induction xs arbitrary: g) (simp_all add: assms split: sum.splits)

lemma play_muted:
  assumes "find (\<lambda>t. trackIdent t = trackId clip) tracks = Some track" "muted track"
  shows "play (xs @ clip # ys) tracks s e = play (xs @ ys) tracks s e"
  unfolding play_def Let_def
  by (simp add: playClip_muted [OF assms] split: option.splits outcome.splits)

lemma renderOfflineGraph_muted:
  assumes "find (\<lambda>t. trackIdent t = trackId clip) tracks = Some track" "muted track"
  shows "renderOfflineGraph (xs @ clip # ys) tracks totalDuration e
           = renderOfflineGraph (xs @ ys) tracks totalDuration e"
  unfolding renderOfflineGraph_def Let_def
  by (simp add: forEachE_skip [of "renderClip tracks", OF renderClip_muted [OF assms]]
        split: sum.splits)

section \<open>What the offline graphs hold\<close>

lemma newOfflineContext_Inr:
  "newOfflineContext ch len rate = Inr g0 \<Longrightarrow>
     1 \<le> len \<and> g0 = \<lparr>offChannels = ch, offLength = len, offSampleRate = rate,
                        offChains = (\<lambda>k. None), offSources = []\<rparr>"
  by (auto simp: newOfflineContext_def split: if_splits)


lemma exportProjectGraph_Inr:
  assumes "exportProjectGraph clips tracks totalDuration e = Inr g"
  shows "offChannels g = 2" "offSampleRate g = 44100" "offLength g = \<lceil>fl (totalDuration * 44100)\<rceil>"
    "offSources g = List.map_filter (svcOfflineVoice e tracks) clips"
    "offChains g k = map_option svcOfflineChain (find (\<lambda>t. svcId t = k) (rev tracks))"
proof -
  from assms obtain g0 where g0: "newOfflineContext 2 \<lceil>fl (totalDuration * 44100)\<rceil> 44100 = Inr g0"
      and r: "forEachE (exportClip e) clips (foldl svcAddOfflineChain g0 tracks) = Inr g"
    by (auto simp: exportProjectGraph_def split: sum.splits)
  note g0' = newOfflineContext_Inr [OF g0]
  have present: "(offChains (foldl svcAddOfflineChain g0 tracks) k \<noteq> None) = (k \<in> set (map svcId tracks))"
    for k
  proof (cases "find (\<lambda>t. svcId t = k) (rev tracks)")
    case None
    then have "k \<notin> set (map svcId tracks)"
      by (force simp: find_None_set)
    then show ?thesis
      using None g0' by (simp add: foldl_svcAddOfflineChain)
  next
    case (Some t)
    then have "k \<in> set (map svcId tracks)"
      by (force dest: find_SomeD)
    then show ?thesis
      using Some by (simp add: foldl_svcAddOfflineChain)
  qed
  note all = forEachE_exportClip [OF r present]
  show "offChannels g = 2" "offSampleRate g = 44100" "offLength g = \<lceil>fl (totalDuration * 44100)\<rceil>"
    "offSources g = List.map_filter (svcOfflineVoice e tracks) clips"
    using all g0' by (simp_all add: foldl_svcAddOfflineChain)
  show "offChains g k = map_option svcOfflineChain (find (\<lambda>t. svcId t = k) (rev tracks))"
    using all g0' by (simp add: foldl_svcAddOfflineChain split: option.splits)
qed

text \<open>
  The least positive binary64 value is \<open>2 ^ - 1074\<close>; so the frame count computed for a
  positive duration is at least 1.
\<close>

lemma fl_least: "fl (2 powi (- 1074)) = 2 powi (- 1074)"
proof -
  define x :: real where "x = 2 powi (- 1074)"
  have xp: "0 < x" unfolding x_def by (rule zero_less_power_int) simp
  have "x < 2 powi (- 1074 + 1)"
    unfolding x_def by (rule power_int_strict_increasing) simp_all
  moreover have "2 powi (- 1074) \<le> \<bar>x\<bar>" "\<bar>x\<bar> = x"
    using xp by (simp_all only: x_def [symmetric] abs_of_pos order_refl)
  ultimately have "expo x = - 1074"
    by (intro expo_unique) (simp_all only:)
  then have u: "ulp x = x"
    by (simp only: ulp_def x_def) simp
  have "x / x = 1" using xp by simp
  then have "fl x = x"
    using xp roundTiesToEven_of_int [of 1] by (simp add: fl_def u)
  then show ?thesis by (simp only: x_def)
qed

lemma isDouble_pos_least:
  assumes "isDouble d" "0 < d"
  shows "2 powi (- 1074) \<le> d"
proof -
  define m where "m = roundTiesToEven (d / ulp d)"
  have d: "d = of_int m * ulp d"
    using assms by (simp add: isDouble_def fl_def m_def split: if_splits)
  have "0 < real_of_int m * ulp d" using assms(2) d by simp
  then have "0 < real_of_int m"
    using ulp_pos [of d] by (simp add: zero_less_mult_iff)
  then have "1 \<le> real_of_int m" by simp
  then have "1 * ulp d \<le> real_of_int m * ulp d"
    using ulp_pos [of d] by (intro mult_right_mono) simp_all
  then have "ulp d \<le> d"
    using d by simp
  moreover have "(2::real) powi (- 1074) \<le> ulp d"
    unfolding ulp_def by (rule power_int_increasing) simp_all
  ultimately show ?thesis by linarith
qed

lemma ceiling_frames:
  assumes "isDouble d" "0 < d"
  shows "1 \<le> \<lceil>fl (d * 44100)\<rceil>"
proof -
  define x :: real where "x = 2 powi (- 1074)"
  have xp: "0 < x" unfolding x_def by (rule zero_less_power_int) simp
  have "x \<le> d" unfolding x_def using assms by (rule isDouble_pos_least)
  then have "x \<le> d * 44100"
    using assms(2) by linarith
  then have "fl x \<le> fl (d * 44100)"
    by (rule fl_mono)
  moreover have "fl x = x" unfolding x_def by (rule fl_least)
  ultimately have "0 < fl (d * 44100)"
    using xp by linarith
  then show ?thesis by linarith
qed


lemma exportProjectGraph_returns:
  assumes "isDouble totalDuration \<and> 0 < totalDuration"
    and "\<forall>c \<in> set clips. 0 \<le> svcStartTime c \<and> 0 \<le> svcOffset c \<and> 0 \<le> svcDuration c"
  shows "\<exists>g. exportProjectGraph clips tracks totalDuration e = Inr g"
  using forEachE_exportClip_Inr [OF assms(2)] ceiling_frames [OF assms(1) [THEN conjunct1] assms(1) [THEN conjunct2]]
  by (simp add: exportProjectGraph_def newOfflineContext_def)








lemma svcLiveVoice_afterSetup:
  assumes "t \<in> set tracks" "svcId t = svcTrackId clip" "bufferMap e (bufferId clip) = Some buf"
  shows "svcLiveVoice now s (afterSetup tracks e) clip =
           map_option (\<lambda>(w, off, d). voice buf 1 (ChainInput (svcTrackId clip)) w off d)
             (svcStartArgs now s clip)"
proof -
  have "svcTrackId clip \<in> set (map svcId tracks)"
    using assms(1,2) by force
  then have "trackNodes (afterSetup tracks e) (svcTrackId clip) \<noteq> None"
    by (simp add: afterSetup_fields)
  then show ?thesis
    using assms(3) by (auto simp: svcLiveVoice_def afterSetup_fields split: option.splits)
qed

lemma svcWriteTrackParams_volume:
  "last (events (volume (svcWriteTrackParams now t nodes)))
     = SetTargetAtTime (if isMuted t then 0 else svcVolume t) now (fl (5 / 100))"
  by (simp add: svcWriteTrackParams_def Let_def setTargetAtTime_def)

text \<open>
  C2, as amended. In \<open>play\<close> and \<open>renderOffline\<close> (utils/audioEngine.ts) a clip whose
  track is muted produces nothing: the call is the call on the list without the clip, so
  no node is created and no voice started for it. In \<open>schedulePlayback\<close> and
  \<open>exportProject\<close> (services/AudioEngine.ts) the mute flag is not looked at when the
  clips are scheduled: a clip on a muted track, with its buffer in \<open>bufferMap\<close>, has its
  source among those started, and the track is silenced through its volume gain, which
  \<open>exportProject\<close> sets to 0 and \<open>updateTrackParams\<close> sends towards 0.
\<close>

theorem muted_track_clip:
  "(find (\<lambda>t. trackIdent t = trackId clip) tracks = Some track \<and> muted track \<longrightarrow>
      play (xs @ clip # ys) tracks atTime e = play (xs @ ys) tracks atTime e
      \<and> renderOfflineGraph (xs @ clip # ys) tracks totalDuration e
          = renderOfflineGraph (xs @ ys) tracks totalDuration e)
   \<and> (schedulePlayback svcClips atTime svcTracks se = Done se'
        \<and> svcClip \<in> set svcClips \<and> t \<in> set svcTracks \<and> isMuted t \<and> svcId t = svcTrackId svcClip
        \<and> bufferMap se (bufferId svcClip) = Some buf
        \<and> svcStartArgs (currentTime (svcCtx se)) atTime svcClip = Some (w, off, d) \<longrightarrow>
        voice buf 1 (ChainInput (svcTrackId svcClip)) w off d \<in> set (svcVoices se'))
   \<and> (exportProjectGraph svcClips svcTracks totalDuration se = Inr sg
        \<and> svcClip \<in> set svcClips \<and> t \<in> set svcTracks \<and> isMuted t \<and> svcId t = svcTrackId svcClip
        \<and> bufferMap se (bufferId svcClip) = Some buf \<longrightarrow>
        voice buf 1 (ChainInput (svcTrackId svcClip))
          (svcStartTime svcClip) (svcOffset svcClip) (svcDuration svcClip) \<in> set (offSources sg))
   \<and> (isMuted t \<longrightarrow>
        volume (svcOfflineChain t) = newParam 0
        \<and> last (events (volume (svcWriteTrackParams now t nodes))) = SetTargetAtTime 0 now (fl (5 / 100)))"
proof (intro conjI impI)
  assume "find (\<lambda>t. trackIdent t = trackId clip) tracks = Some track \<and> muted track"
  then have a: "find (\<lambda>t. trackIdent t = trackId clip) tracks = Some track" "muted track"
    by simp_all
  show "play (xs @ clip # ys) tracks atTime e = play (xs @ ys) tracks atTime e"
    using a by (rule play_muted)
  show "renderOfflineGraph (xs @ clip # ys) tracks totalDuration e
          = renderOfflineGraph (xs @ ys) tracks totalDuration e"
    using a by (rule renderOfflineGraph_muted)
next
  assume h: "schedulePlayback svcClips atTime svcTracks se = Done se'
        \<and> svcClip \<in> set svcClips \<and> t \<in> set svcTracks \<and> isMuted t \<and> svcId t = svcTrackId svcClip
        \<and> bufferMap se (bufferId svcClip) = Some buf
        \<and> svcStartArgs (currentTime (svcCtx se)) atTime svcClip = Some (w, off, d)"
  then have "svcLiveVoice (currentTime (svcCtx se)) atTime (afterSetup svcTracks se) svcClip
               = Some (voice buf 1 (ChainInput (svcTrackId svcClip)) w off d)"
    using svcLiveVoice_afterSetup [of t svcTracks svcClip se buf "currentTime (svcCtx se)" atTime]
    by simp
  moreover have "svcClip \<in> set svcClips" using h by simp
  ultimately have "voice buf 1 (ChainInput (svcTrackId svcClip)) w off d
      \<in> set (List.map_filter (svcLiveVoice (currentTime (svcCtx se)) atTime (afterSetup svcTracks se)) svcClips)"
    by (rule map_filter_mem [rotated])
  then show "voice buf 1 (ChainInput (svcTrackId svcClip)) w off d \<in> set (svcVoices se')"
    using h schedulePlayback_voices [of svcClips atTime svcTracks se se'] by simp
next
  assume h: "exportProjectGraph svcClips svcTracks totalDuration se = Inr sg
        \<and> svcClip \<in> set svcClips \<and> t \<in> set svcTracks \<and> isMuted t \<and> svcId t = svcTrackId svcClip
        \<and> bufferMap se (bufferId svcClip) = Some buf"
  then have "svcTrackId svcClip \<in> set (map svcId svcTracks)"
    by force
  then have "svcOfflineVoice se svcTracks svcClip
               = Some (voice buf 1 (ChainInput (svcTrackId svcClip))
                         (svcStartTime svcClip) (svcOffset svcClip) (svcDuration svcClip))"
    using h by (simp add: svcOfflineVoice_def)
  moreover have "svcClip \<in> set svcClips" using h by simp
  ultimately have "voice buf 1 (ChainInput (svcTrackId svcClip))
          (svcStartTime svcClip) (svcOffset svcClip) (svcDuration svcClip)
      \<in> set (List.map_filter (svcOfflineVoice se svcTracks) svcClips)"
    by (rule map_filter_mem [rotated])
  then show "voice buf 1 (ChainInput (svcTrackId svcClip))
          (svcStartTime svcClip) (svcOffset svcClip) (svcDuration svcClip) \<in> set (offSources sg)"
    using h exportProjectGraph_Inr(4) [of svcClips svcTracks totalDuration se sg] by simp
next
  assume "isMuted t"
  then show "volume (svcOfflineChain t) = newParam 0"
    by (simp add: svcOfflineChain_def Let_def newChain_def setValue_def newParam_def)
  show "last (events (volume (svcWriteTrackParams now t nodes))) = SetTargetAtTime 0 now (fl (5 / 100))"
    using \<open>isMuted t\<close> by (simp add: svcWriteTrackParams_volume)
qed

lemma schedulePlayback_returns:
  assumes "0 \<le> currentTime (svcCtx e)" and "isDouble s"
    and "\<forall>c \<in> set clips. 0 \<le> svcOffset c \<and> 0 \<le> svcDuration c \<and> isDouble (svcDuration c)"
  shows "schedulePlayback clips s tracks e = Done (engineOf (schedulePlayback clips s tracks e))"
proof -
  obtain e' where "schedulePlayback clips s tracks e = Done e'"
    unfolding schedulePlayback_afterSetup
    using forEach_scheduleClip_Done [OF assms] by blast
  then show ?thesis by simp
qed

theorem muted_track_clip_counterexample:
  "isMuted svcMutedTrack \<and> svcId svcMutedTrack = svcTrackId svcClipMuted
   \<and> svcVoices (engineOf (schedulePlayback [svcClipMuted] 0 [svcMutedTrack] svcDemoEngine))
       = [voice demoBuffer 1 (ChainInput ''t2'') 0 0 2]
   \<and> map_sum id offSources (exportProjectGraph [svcClipMuted] [svcMutedTrack] 8 svcDemoEngine)
       = Inr [voice demoBuffer 1 (ChainInput ''t2'') 0 0 2]"
proof -
  let ?s = "schedulePlayback [svcClipMuted] 0 [svcMutedTrack] svcDemoEngine"
  have b: "bufferMap svcDemoEngine (bufferId svcClipMuted) = Some demoBuffer"
    by (simp add: svcDemoEngine_def addBuffer_def svcClipMuted_def)
  have t: "svcMutedTrack \<in> set [svcMutedTrack]" "svcId svcMutedTrack = svcTrackId svcClipMuted"
    by (simp_all add: svcMutedTrack_def svcClipMuted_def)
  have "?s = Done (engineOf ?s)"
    by (rule schedulePlayback_returns)
       (simp_all add: svcDemoEngine_def addBuffer_def newSvcEngine_def svcClipMuted_def isDouble_small)
  then have "svcVoices (engineOf ?s)
        = List.map_filter (svcLiveVoice (currentTime (svcCtx svcDemoEngine)) 0
            (afterSetup [svcMutedTrack] svcDemoEngine)) [svcClipMuted]"
    by (rule schedulePlayback_voices)
  moreover have "svcLiveVoice (currentTime (svcCtx svcDemoEngine)) 0
            (afterSetup [svcMutedTrack] svcDemoEngine) svcClipMuted
          = Some (voice demoBuffer 1 (ChainInput ''t2'') 0 0 2)"
    unfolding svcLiveVoice_afterSetup [OF t b]
    by (simp add: svcStartArgs_def svcClipMuted_def svcDemoEngine_def addBuffer_def newSvcEngine_def
          fl_small)
  ultimately have v: "svcVoices (engineOf ?s) = [voice demoBuffer 1 (ChainInput ''t2'') 0 0 2]"
    by simp
  let ?x = "exportProjectGraph [svcClipMuted] [svcMutedTrack] 8 svcDemoEngine"
  obtain g where g: "?x = Inr g"
    using exportProjectGraph_returns [of 8 "[svcClipMuted]" "[svcMutedTrack]" svcDemoEngine]
    by (auto simp: svcClipMuted_def isDouble_def fl_eval)
  have "offSources g = List.map_filter (svcOfflineVoice svcDemoEngine [svcMutedTrack]) [svcClipMuted]"
    using g by (rule exportProjectGraph_Inr)
  then have "offSources g = [voice demoBuffer 1 (ChainInput ''t2'') 0 0 2]"
    using b t(2) by (simp add: svcOfflineVoice_def svcClipMuted_def)
  then show ?thesis
    using v g t(2) by (simp add: svcMutedTrack_def)
qed

theorem muted_track_clip_witness:
  "find (\<lambda>t. trackIdent t = trackId clipMuted) [demoTrack, mutedTrack] = Some mutedTrack
   \<and> muted mutedTrack
   \<and> play [clipAhead, clipMuted] [demoTrack, mutedTrack] 0 newEngine
       = play [clipAhead] [demoTrack, mutedTrack] 0 newEngine
   \<and> renderOfflineGraph [clipAhead, clipMuted] [demoTrack, mutedTrack] 8 newEngine
       = renderOfflineGraph [clipAhead] [demoTrack, mutedTrack] 8 newEngine
   \<and> schedulePlayback [svcClipMuted] 0 [svcMutedTrack] svcDemoEngine
       = Done (engineOf (schedulePlayback [svcClipMuted] 0 [svcMutedTrack] svcDemoEngine))
   \<and> exportProjectGraph [svcClipMuted] [svcMutedTrack] 8 svcDemoEngine
       = Inr (projr (exportProjectGraph [svcClipMuted] [svcMutedTrack] 8 svcDemoEngine))
   \<and> svcClipMuted \<in> set [svcClipMuted] \<and> svcMutedTrack \<in> set [svcMutedTrack] \<and> isMuted svcMutedTrack
   \<and> svcId svcMutedTrack = svcTrackId svcClipMuted
   \<and> bufferMap svcDemoEngine (bufferId svcClipMuted) = Some demoBuffer
   \<and> svcStartArgs (currentTime (svcCtx svcDemoEngine)) 0 svcClipMuted = Some (0, 0, 2)
   \<and> voice demoBuffer 1 (ChainInput (svcTrackId svcClipMuted)) 0 0 2
       \<in> set (svcVoices (engineOf (schedulePlayback [svcClipMuted] 0 [svcMutedTrack] svcDemoEngine)))
   \<and> voice demoBuffer 1 (ChainInput (svcTrackId svcClipMuted)) 0 0 2
       \<in> set (offSources (projr (exportProjectGraph [svcClipMuted] [svcMutedTrack] 8 svcDemoEngine)))
   \<and> volume (svcOfflineChain svcMutedTrack) = newParam 0"
proof -
  let ?s = "schedulePlayback [svcClipMuted] 0 [svcMutedTrack] svcDemoEngine"
  let ?x = "exportProjectGraph [svcClipMuted] [svcMutedTrack] 8 svcDemoEngine"
  note inst = muted_track_clip
    [where clip = clipMuted and tracks = "[demoTrack, mutedTrack]" and track = mutedTrack
       and xs = "[clipAhead]" and ys = "[]" and atTime = 0 and e = newEngine and totalDuration = 8
       and svcClips = "[svcClipMuted]" and svcTracks = "[svcMutedTrack]" and se = svcDemoEngine
       and se' = "engineOf ?s" and sg = "projr ?x" and svcClip = svcClipMuted and t = svcMutedTrack
       and buf = demoBuffer and w = 0 and off = 0 and d = 2 and now = 0 and nodes = newChain]
  note c1 = inst [THEN conjunct1]
  note c2 = inst [THEN conjunct2, THEN conjunct1]
  note c3 = inst [THEN conjunct2, THEN conjunct2, THEN conjunct1]
  note c4 = inst [THEN conjunct2, THEN conjunct2, THEN conjunct2]
  have f: "find (\<lambda>t. trackIdent t = trackId clipMuted) [demoTrack, mutedTrack] = Some mutedTrack \<and> muted mutedTrack"
    by (simp add: clipMuted_def demoTrack_def mutedTrack_def)
  have s: "?s = Done (engineOf ?s)"
    by (rule schedulePlayback_returns)
       (simp_all add: svcDemoEngine_def addBuffer_def newSvcEngine_def svcClipMuted_def isDouble_small)
  obtain g where "?x = Inr g"
    using exportProjectGraph_returns [of 8 "[svcClipMuted]" "[svcMutedTrack]" svcDemoEngine]
    by (auto simp: svcClipMuted_def isDouble_def fl_eval)
  then have x: "?x = Inr (projr ?x)" by simp
  have m: "svcClipMuted \<in> set [svcClipMuted]" "svcMutedTrack \<in> set [svcMutedTrack]" by simp_all
  have im: "isMuted svcMutedTrack" by (simp add: svcMutedTrack_def)
  have i: "svcId svcMutedTrack = svcTrackId svcClipMuted"
    by (simp add: svcMutedTrack_def svcClipMuted_def)
  have b: "bufferMap svcDemoEngine (bufferId svcClipMuted) = Some demoBuffer"
    by (simp add: svcDemoEngine_def addBuffer_def svcClipMuted_def)
  have a: "svcStartArgs (currentTime (svcCtx svcDemoEngine)) 0 svcClipMuted = Some (0, 0, 2)"
    by (simp add: svcStartArgs_def svcClipMuted_def svcDemoEngine_def addBuffer_def newSvcEngine_def
          fl_small)
  have o1: "voice demoBuffer 1 (ChainInput (svcTrackId svcClipMuted)) 0 0 2 \<in> set (svcVoices (engineOf ?s))"
    using c2 s m im i b a by blast
  have o2: "voice demoBuffer 1 (ChainInput (svcTrackId svcClipMuted)) 0 0 2 \<in> set (offSources (projr ?x))"
    using c3 x m im i b by (simp add: svcClipMuted_def)
  have o3: "volume (svcOfflineChain svcMutedTrack) = newParam 0"
    using c4 im by blast
  have o4: "play [clipAhead, clipMuted] [demoTrack, mutedTrack] 0 newEngine
       = play [clipAhead] [demoTrack, mutedTrack] 0 newEngine"
    and o5: "renderOfflineGraph [clipAhead, clipMuted] [demoTrack, mutedTrack] 8 newEngine
       = renderOfflineGraph [clipAhead] [demoTrack, mutedTrack] 8 newEngine"
    using c1 [THEN mp, OF f] by simp_all
  show ?thesis
    by (intro conjI f [THEN conjunct1] f [THEN conjunct2] o4 o5 s x m im i b a o1 o2 o3)
qed

section \<open>The WAV encoder\<close>

lemma sint16_id: "- 32768 \<le> k \<Longrightarrow> k \<le> 32767 \<Longrightarrow> sint (word_of_int k :: 16 word) = k"
  by (simp add: sint_sbintrunc' signed_take_bit_int_eq_self)

lemma sint32_id: "- 2147483648 \<le> k \<Longrightarrow> k \<le> 2147483647 \<Longrightarrow> sint (word_of_int k :: 32 word) = k"
  by (simp add: sint_sbintrunc' signed_take_bit_int_eq_self)

lemma clampSample_range: "- 1 \<le> clampSample x \<and> clampSample x \<le> 1"
  by (simp add: clampSample_def)

lemma toInt32_range:
  assumes "- 32768 \<le> v" "v \<le> 32767"
  shows "- 32768 \<le> toInt32 v \<and> toInt32 v \<le> 32767"
proof -
  have t: "- 32768 \<le> (if v < 0 then \<lceil>v\<rceil> else \<lfloor>v\<rfloor>)" "(if v < 0 then \<lceil>v\<rceil> else \<lfloor>v\<rfloor>) \<le> 32767"
    using assms by (auto simp: le_ceiling_iff ceiling_le_iff le_floor_iff floor_le_iff)
  then have "toInt32 v = (if v < 0 then \<lceil>v\<rceil> else \<lfloor>v\<rfloor>)"
    unfolding toInt32_def by (intro sint32_id) linarith+
  then show ?thesis using t by simp
qed

lemma fl_pcm: "fl 32767 = 32767" "fl 32768 = 32768"
  by (simp_all add: fl_eval)

lemma scaled_range:
  "- 32768 \<le> (if fl (fl (1 / 2) + clampSample x) < 0 then fl (clampSample x * 32768)
                 else fl (clampSample x * 32767))"
  "(if fl (fl (1 / 2) + clampSample x) < 0 then fl (clampSample x * 32768)
    else fl (clampSample x * 32767)) \<le> 32767"
proof -
  let ?s = "clampSample x"
  have c: "- 1 \<le> ?s" "?s \<le> 1" using clampSample_range by simp_all
  have lo8: "- 32768 \<le> fl (?s * 32768)"
    using fl_mono [of "- 32768" "?s * 32768"] c(1) by (simp add: fl_minus fl_pcm)
  have lo7: "- 32767 \<le> fl (?s * 32767)"
    using fl_mono [of "- 32767" "?s * 32767"] c(1) by (simp add: fl_minus fl_pcm)
  have hi7: "fl (?s * 32767) \<le> 32767"
    using fl_mono [of "?s * 32767" 32767] c(2) by (simp add: fl_pcm)
  have hi8: "fl (?s * 32768) \<le> 0" if "fl (fl (1 / 2) + ?s) < 0"
  proof -
    have "\<not> 0 \<le> 1 / 2 + ?s"
      using that fl_nonneg [of "1 / 2 + ?s"] by (auto simp: fl_small)
    then have "?s * 32768 \<le> 0" by simp
    then show ?thesis by (rule fl_nonpos)
  qed
  show "- 32768 \<le> (if fl (fl (1 / 2) + ?s) < 0 then fl (?s * 32768) else fl (?s * 32767))"
    using lo8 lo7 by simp
  show "(if fl (fl (1 / 2) + ?s) < 0 then fl (?s * 32768) else fl (?s * 32767)) \<le> 32767"
    using hi8 hi7 by (cases "fl (fl (1 / 2) + ?s) < 0") simp_all
qed

lemma pcmSample_range: "- 32768 \<le> pcmSample x \<and> pcmSample x \<le> 32767"
  unfolding pcmSample_def Let_def
  using scaled_range [of x] by (rule toInt32_range)

lemma pcmSample_stored: "sint (word_of_int (pcmSample x) :: 16 word) = pcmSample x"
  using pcmSample_range [of x] by (simp add: sint16_id)

lemma length_le16: "length (le16 w) = 2"
  by (simp add: le16_def)

lemma length_le32: "length (le32 w) = 4"
  by (simp add: le32_def)

lemma bytes_of_nat16:
  fixes n :: nat
  assumes "n < 65536"
  shows "n mod 256 + 256 * (n div 256 mod 256) = n"
proof -
  have "n div 256 < 256" using assms by simp
  then show ?thesis by simp
qed

lemma bytes_of_nat32:
  fixes n :: nat
  assumes "n < 4294967296"
  shows "n mod 256 + 256 * (n div 256 mod 256) + 65536 * (n div 65536 mod 256)
           + 16777216 * (n div 16777216 mod 256) = n"
proof -
  define a where "a = n div 256"
  define b where "b = a div 256"
  define c where "c = b div 256"
  have n: "n = n mod 256 + 256 * a" by (simp add: a_def)
  have a: "a = a mod 256 + 256 * b" by (simp add: b_def)
  have b: "b = b mod 256 + 256 * c" by (simp add: c_def)
  have "c < 256" using assms by (simp add: a_def b_def c_def div_mult2_eq)
  then have c: "c mod 256 = c" by simp
  have d: "n div 65536 = b" "n div 16777216 = c"
    by (simp_all add: a_def b_def c_def div_mult2_eq)
  have "n mod 256 + 256 * (a mod 256) + 65536 * (b mod 256) + 16777216 * c = n"
    using n a b by linarith
  then show ?thesis
    by (simp add: d c a_def [symmetric])
qed

lemma le16_nth: "le16 w ! 0 = ucast w" "le16 w ! 1 = ucast (drop_bit 8 w)"
  by (simp_all add: le16_def)

lemma le32_nth:
  "le32 w ! 0 = ucast w" "le32 w ! 1 = ucast (drop_bit 8 w)"
  "le32 w ! 2 = ucast (drop_bit 16 w)" "le32 w ! 3 = ucast (drop_bit 24 w)"
  by (simp_all add: le32_def)

lemma unat_byte: "unat (ucast (drop_bit n w) :: byte) = unat w div 2 ^ n mod 256"
  by (simp only: unsigned_ucast_eq unat_drop_bit_eq) (simp add: take_bit_eq_mod drop_bit_eq_div)

lemma unat_byte0: "unat (ucast w :: byte) = unat w mod 256"
  by (simp add: unsigned_ucast_eq take_bit_eq_mod)

lemma u16le_le16: "u16le (le16 w) = unat w"
proof -
  have "unat w < 65536" using unsigned_less [of w] by simp
  then have "unat w mod 256 + 256 * (unat w div 2 ^ 8 mod 256) = unat w"
    using bytes_of_nat16 [of "unat w"] by simp
  then show ?thesis
    unfolding u16le_def le16_nth unat_byte unfolding unat_byte0 .
qed

lemma u32le_le32: "u32le (le32 w) = unat w"
proof -
  have "unat w < 4294967296" using unsigned_less [of w] by simp
  then have "unat w mod 256 + 256 * (unat w div 2 ^ 8 mod 256) + 65536 * (unat w div 2 ^ 16 mod 256)
      + 16777216 * (unat w div 2 ^ 24 mod 256) = unat w"
    using bytes_of_nat32 [of "unat w"] by simp
  then show ?thesis
    unfolding u32le_def le32_nth unat_byte unfolding unat_byte0 .
qed

declare writeFrames.simps [simp del]

lemma writeBytes_Some:
  assumes "pos + length bs \<le> length view"
  shows "\<exists>v. writeBytes pos bs view = Some v \<and> length v = length view
           \<and> field pos (length bs) v = bs
           \<and> (\<forall>p k. p + k \<le> pos \<longrightarrow> field p k v = field p k view)
           \<and> (\<forall>q. pos + length bs \<le> q \<longrightarrow> drop q v = drop q view)"
proof -
  let ?v = "take pos view @ bs @ drop (pos + length bs) view"
  have w: "writeBytes pos bs view = Some ?v"
    using assms by (simp add: writeBytes_def)
  have l: "length ?v = length view"
    using assms by simp
  have lp: "length (take pos view) = pos"
    using assms by simp
  have f: "field pos (length bs) ?v = bs"
    unfolding field_def using lp by simp
  have "field p k ?v = field p k view" if "p + k \<le> pos" for p k
  proof -
    have "take k (drop p (take pos view @ bs @ drop (pos + length bs) view))
            = take k (drop p (take pos view))"
      using that lp by simp
    also have "\<dots> = take k (drop p view)"
      using that by (simp add: drop_take min_def)
    finally show ?thesis by (simp add: field_def)
  qed
  moreover have "drop q ?v = drop q view" if "pos + length bs \<le> q" for q
  proof -
    have "drop q ?v = drop (q - pos - length bs) (drop (pos + length bs) view)"
      using that lp by simp
    also have "\<dots> = drop q view"
      using that by simp
    finally show ?thesis .
  qed
  ultimately show ?thesis
    using w l f by blast
qed

lemma setUint32_Some:
  assumes "pos + 4 \<le> length view"
  shows "\<exists>v. setUint32 data (pos, view) = Some (pos + 4, v) \<and> length v = length view
           \<and> field pos 4 v = le32 (word_of_nat data)
           \<and> (\<forall>p k. p + k \<le> pos \<longrightarrow> field p k v = field p k view)
           \<and> (\<forall>q. pos + 4 \<le> q \<longrightarrow> drop q v = drop q view)"
  using writeBytes_Some [of pos "le32 (word_of_nat data)" view] assms
  by (auto simp: setUint32_def length_le32)

lemma setUint16_Some:
  assumes "pos + 2 \<le> length view"
  shows "\<exists>v. setUint16 data (pos, view) = Some (pos + 2, v) \<and> length v = length view
           \<and> field pos 2 v = le16 (word_of_nat data)
           \<and> (\<forall>p k. p + k \<le> pos \<longrightarrow> field p k v = field p k view)
           \<and> (\<forall>q. pos + 2 \<le> q \<longrightarrow> drop q v = drop q view)"
  using writeBytes_Some [of pos "le16 (word_of_nat data)" view] assms
  by (auto simp: setUint16_def length_le16)

lemma writeFrame_Some:
  assumes "44 + offset + 2 * length is \<le> length view"
  shows "\<exists>v. writeFrame abuffer pos is offset view = Some (offset + 2 * length is, v)
           \<and> length v = length view
           \<and> (\<forall>p k. p + k \<le> 44 \<longrightarrow> field p k v = field p k view)"
  using assms
proof (induction "is" arbitrary: offset view)
  case Nil
  then show ?case by simp
next
  case (Cons i "is")
  let ?bs = "le16 (word_of_int (pcmSample (channelData abuffer ! i ! pos)))"
  have "44 + offset + length ?bs \<le> length view"
    using Cons.prems by (simp add: length_le16)
  from writeBytes_Some [OF this] obtain v1 where v1:
    "setInt16 (44 + offset) (pcmSample (channelData abuffer ! i ! pos)) view = Some v1"
    "length v1 = length view"
    "\<forall>p k. p + k \<le> 44 + offset \<longrightarrow> field p k v1 = field p k view"
    by (auto simp: setInt16_def)
  have "44 + (offset + 2) + 2 * length is \<le> length v1"
    using Cons.prems v1(2) by simp
  from Cons.IH [OF this] obtain v where v:
    "writeFrame abuffer pos is (offset + 2) v1 = Some (offset + 2 + 2 * length is, v)"
    "length v = length v1"
    "\<forall>p k. p + k \<le> 44 \<longrightarrow> field p k v = field p k v1"
    by blast
  have "\<forall>p k. p + k \<le> 44 \<longrightarrow> field p k v = field p k view"
    using v(3) v1(3) by simp
  then show ?case
    using v1(1,2) v(1,2) by simp
qed

lemma writeFrames_Some:
  assumes "44 + offset + 2 * numberOfChannels abuffer * (bufferLength abuffer - pos) \<le> length view"
  shows "\<exists>v. writeFrames abuffer pos offset view = Some v \<and> length v = length view
           \<and> (\<forall>p k. p + k \<le> 44 \<longrightarrow> field p k v = field p k view)"
  using assms
proof (induction abuffer pos offset view rule: writeFrames.induct)
  case (1 abuffer pos offset view)
  show ?case
  proof (cases "pos < bufferLength abuffer")
    case False
    then show ?thesis by (subst writeFrames.simps) simp
  next
    case True
    let ?n = "numberOfChannels abuffer"
    have split: "bufferLength abuffer - pos = Suc (bufferLength abuffer - Suc pos)"
      using True by simp
    have room: "44 + offset + 2 * ?n + 2 * ?n * (bufferLength abuffer - Suc pos) \<le> length view"
      using "1.prems" unfolding split by (simp add: algebra_simps)
    then have "44 + offset + 2 * length [0..<?n] \<le> length view"
      by simp
    from writeFrame_Some [OF this, of abuffer pos] obtain v1 where v1:
      "writeFrame abuffer pos [0..<?n] offset view = Some (offset + 2 * ?n, v1)"
      "length v1 = length view"
      "\<forall>p k. p + k \<le> 44 \<longrightarrow> field p k v1 = field p k view"
      by auto
    have "44 + (offset + 2 * ?n) + 2 * ?n * (bufferLength abuffer - Suc pos) \<le> length v1"
      using room v1(2) by simp
    from "1.IH" [OF True v1(1) refl this] obtain v where v:
      "writeFrames abuffer (Suc pos) (offset + 2 * ?n) v1 = Some v" "length v = length v1"
      "\<forall>p k. p + k \<le> 44 \<longrightarrow> field p k v = field p k v1"
      by blast
    have "writeFrames abuffer pos offset view = Some v"
      by (subst writeFrames.simps) (simp add: True v1(1) v(1))
    then show ?thesis
      using v(2,3) v1(2,3) by simp
  qed
qed

subsection \<open>Where the samples go\<close>

lemma writeBytes_layout:
  assumes "writeBytes pos bs view = Some v"
  shows "length v = length view" "field pos (length bs) v = bs"
    "p + k \<le> pos \<Longrightarrow> field p k v = field p k view"
    "pos + length bs \<le> q \<Longrightarrow> drop q v = drop q view"
proof -
  have le: "pos + length bs \<le> length view"
    and v: "v = take pos view @ bs @ drop (pos + length bs) view"
    using assms by (auto simp: writeBytes_def split: if_splits)
  from writeBytes_Some [OF le] assms
  show "length v = length view" "field pos (length bs) v = bs"
    "p + k \<le> pos \<Longrightarrow> field p k v = field p k view"
    by auto
  show "drop q v = drop q view" if "pos + length bs \<le> q"
  proof -
    have "length (take pos view) = pos" using le by simp
    then have "drop q v = drop (q - pos - length bs) (drop (pos + length bs) view)"
      unfolding v using that by simp
    also have "\<dots> = drop q view"
      using that by simp
    finally show ?thesis .
  qed
qed

lemma writeFrame_layout:
  assumes "writeFrame abuffer pos is offset view = Some (offset', v)"
  shows "offset' = offset + 2 * length is \<and> length v = length view
         \<and> (\<forall>j < length is. field (44 + offset + 2 * j) 2 v
                = le16 (word_of_int (pcmSample (channelData abuffer ! (is ! j) ! pos))))
         \<and> (\<forall>p k. p + k \<le> 44 + offset \<longrightarrow> field p k v = field p k view)
         \<and> (\<forall>q. 44 + offset + 2 * length is \<le> q \<longrightarrow> drop q v = drop q view)"
  using assms
proof (induction "is" arbitrary: offset view)
  case Nil
  then show ?case by simp
next
  case (Cons i "is")
  let ?bs = "le16 (word_of_int (pcmSample (channelData abuffer ! i ! pos)))"
  from Cons.prems obtain v1 where v1: "writeBytes (44 + offset) ?bs view = Some v1"
      and r: "writeFrame abuffer pos is (offset + 2) v1 = Some (offset', v)"
    by (auto simp: setInt16_def split: option.splits)
  note w = writeBytes_layout [OF v1, unfolded length_le16]
  note ih = Cons.IH [OF r]
  have a: "field (44 + offset + 2 * j) 2 v
             = le16 (word_of_int (pcmSample (channelData abuffer ! ((i # is) ! j) ! pos)))"
    if "j < length (i # is)" for j
  proof (cases j)
    case 0
    have "field (44 + offset) 2 v = field (44 + offset) 2 v1"
      using ih by simp
    then show ?thesis using 0 w(2) by simp
  next
    case (Suc j')
    then have "j' < length is" using that by simp
    then have "field (44 + (offset + 2) + 2 * j') 2 v
                 = le16 (word_of_int (pcmSample (channelData abuffer ! (is ! j') ! pos)))"
      using ih by blast
    then show ?thesis using Suc by (simp add: add.assoc)
  qed
  have b: "field p k v = field p k view" if "p + k \<le> 44 + offset" for p k
  proof -
    have "field p k v = field p k v1" using ih that by simp
    then show ?thesis using w(3) [OF that] by simp
  qed
  have c: "drop q v = drop q view" if "44 + offset + 2 * length (i # is) \<le> q" for q
  proof -
    have "drop q v = drop q v1" using ih that by simp
    moreover have "drop q v1 = drop q view" using that by (intro w(4)) simp
    ultimately show ?thesis by simp
  qed
  show ?case
    using ih w(1) a b c by simp
qed

lemma writeFrames_layout:
  assumes "writeFrames abuffer pos offset view = Some v"
  shows "length v = length view
         \<and> (\<forall>p i. pos \<le> p \<and> p < bufferLength abuffer \<and> i < numberOfChannels abuffer \<longrightarrow>
               field (44 + offset + 2 * ((p - pos) * numberOfChannels abuffer + i)) 2 v
                 = le16 (word_of_int (pcmSample (channelData abuffer ! i ! p))))
         \<and> (\<forall>p k. p + k \<le> 44 + offset \<longrightarrow> field p k v = field p k view)
         \<and> (\<forall>q. 44 + offset + 2 * numberOfChannels abuffer * (bufferLength abuffer - pos) \<le> q
               \<longrightarrow> drop q v = drop q view)"
  using assms
proof (induction abuffer pos offset view arbitrary: v rule: writeFrames.induct)
  case (1 abuffer pos offset view)
  let ?n = "numberOfChannels abuffer"
  show ?case
  proof (cases "pos < bufferLength abuffer")
    case False
    then have "v = view"
      using "1.prems" by (subst (asm) writeFrames.simps) simp
    then show ?thesis using False by auto
  next
    case True
    from "1.prems" True obtain offset' v1 where v1:
        "writeFrame abuffer pos [0..<?n] offset view = Some (offset', v1)"
      and r: "writeFrames abuffer (Suc pos) offset' v1 = Some v"
      by (subst (asm) writeFrames.simps) (auto split: option.splits)
    note f = writeFrame_layout [OF v1]
    have o: "offset' = offset + 2 * ?n" using f by simp
    note ih = "1.IH" [OF True v1 refl r, unfolded o]
    have split: "bufferLength abuffer - pos = Suc (bufferLength abuffer - Suc pos)"
      using True by simp
    have a: "field (44 + offset + 2 * ((p - pos) * ?n + i)) 2 v
               = le16 (word_of_int (pcmSample (channelData abuffer ! i ! p)))"
      if "pos \<le> p" "p < bufferLength abuffer" "i < ?n" for p i
    proof (cases "p = pos")
      case True
      have "44 + offset + 2 * i + 2 \<le> 44 + (offset + 2 * ?n)"
        using that(3) by simp
      then have "field (44 + offset + 2 * i) 2 v = field (44 + offset + 2 * i) 2 v1"
        using ih by blast
      also have "\<dots> = le16 (word_of_int (pcmSample (channelData abuffer ! i ! pos)))"
        using f that(3) by simp
      finally show ?thesis using True by simp
    next
      case False
      then have p: "Suc pos \<le> p" using that(1) by simp
      then have "(p - pos) * ?n = ?n + (p - Suc pos) * ?n"
        by (metis Suc_diff_le diff_Suc_Suc mult_Suc)
      then have idx: "44 + offset + 2 * ((p - pos) * ?n + i)
                   = 44 + (offset + 2 * ?n) + 2 * ((p - Suc pos) * ?n + i)"
        by simp
      have "field (44 + (offset + 2 * ?n) + 2 * ((p - Suc pos) * ?n + i)) 2 v
              = le16 (word_of_int (pcmSample (channelData abuffer ! i ! p)))"
        using ih p that(2,3) by blast
      then show ?thesis
        unfolding idx .
    qed
    have b: "field p k v = field p k view" if "p + k \<le> 44 + offset" for p k
    proof -
      have "field p k v = field p k v1" using ih that by simp
      then show ?thesis using f that by simp
    qed
    have c: "drop q v = drop q view"
      if "44 + offset + 2 * ?n * (bufferLength abuffer - pos) \<le> q" for q
    proof -
      have q: "44 + (offset + 2 * ?n) + 2 * ?n * (bufferLength abuffer - Suc pos) \<le> q"
        using that unfolding split by (simp add: algebra_simps)
      then have "drop q v = drop q v1" using ih by blast
      moreover have "drop q v1 = drop q view" using f q by simp
      ultimately show ?thesis by simp
    qed
    show ?thesis
      using ih f a b c by simp
  qed
qed

text \<open>The thirteen header writes, one after the other.\<close>

lemma wav_header:
  fixes abuffer :: AudioBuffer
  defines "numOfChan \<equiv> numberOfChannels abuffer"
  defines "len \<equiv> bufferLength abuffer * numOfChan * 2 + 44"
  shows "\<exists>v. (Some (0, replicate len 0)
           \<bind> setUint32 0x46464952
           \<bind> setUint32 (len - 8)
           \<bind> setUint32 0x45564157
           \<bind> setUint32 0x20746d66
           \<bind> setUint32 16
           \<bind> setUint16 1
           \<bind> setUint16 numOfChan
           \<bind> setUint32 (sampleRate abuffer)
           \<bind> setUint32 (sampleRate abuffer * 2 * numOfChan)
           \<bind> setUint16 (numOfChan * 2)
           \<bind> setUint16 16
           \<bind> setUint32 0x61746164
           \<bind> (\<lambda>(pos, view). setUint32 (len - pos - 4) (pos, view))) = Some (44, v)
         \<and> length v = len
         \<and> field 20 2 v = le16 (word_of_nat 1)
         \<and> field 22 2 v = le16 (word_of_nat numOfChan)
         \<and> field 24 4 v = le32 (word_of_nat (sampleRate abuffer))
         \<and> field 34 2 v = le16 (word_of_nat 16)
         \<and> field 40 4 v = le32 (word_of_nat (len - 44))
         \<and> drop 44 v = replicate (len - 44) 0"
proof -
  have "0 + 4 \<le> length (replicate len 0)"
    by (simp add: len_def)
  from setUint32_Some [OF this, of "0x46464952"] obtain v1 where a1:
    "setUint32 0x46464952 (0, replicate len 0) = Some (4, v1)" "length v1 = len"
    "field 0 4 v1 = le32 (word_of_nat 0x46464952)"
    "\<forall>p k. p + k \<le> 0 \<longrightarrow> field p k v1 = field p k (replicate len 0)"
    "drop 44 v1 = drop 44 (replicate len 0)"
    by (auto simp: len_def)
  have "4 + 4 \<le> length (v1)"
    by (simp add: a1(2) len_def)
  from setUint32_Some [OF this, of "(len - 8)"] obtain v2 where a2:
    "setUint32 (len - 8) (4, v1) = Some (8, v2)" "length v2 = len"
    "field 4 4 v2 = le32 (word_of_nat (len - 8))"
    "\<forall>p k. p + k \<le> 4 \<longrightarrow> field p k v2 = field p k (v1)"
    "drop 44 v2 = drop 44 (v1)"
    by (auto simp: a1(2))
  have "8 + 4 \<le> length (v2)"
    by (simp add: a2(2) len_def)
  from setUint32_Some [OF this, of "0x45564157"] obtain v3 where a3:
    "setUint32 0x45564157 (8, v2) = Some (12, v3)" "length v3 = len"
    "field 8 4 v3 = le32 (word_of_nat 0x45564157)"
    "\<forall>p k. p + k \<le> 8 \<longrightarrow> field p k v3 = field p k (v2)"
    "drop 44 v3 = drop 44 (v2)"
    by (auto simp: a2(2))
  have "12 + 4 \<le> length (v3)"
    by (simp add: a3(2) len_def)
  from setUint32_Some [OF this, of "0x20746d66"] obtain v4 where a4:
    "setUint32 0x20746d66 (12, v3) = Some (16, v4)" "length v4 = len"
    "field 12 4 v4 = le32 (word_of_nat 0x20746d66)"
    "\<forall>p k. p + k \<le> 12 \<longrightarrow> field p k v4 = field p k (v3)"
    "drop 44 v4 = drop 44 (v3)"
    by (auto simp: a3(2))
  have "16 + 4 \<le> length (v4)"
    by (simp add: a4(2) len_def)
  from setUint32_Some [OF this, of "16"] obtain v5 where a5:
    "setUint32 16 (16, v4) = Some (20, v5)" "length v5 = len"
    "field 16 4 v5 = le32 (word_of_nat 16)"
    "\<forall>p k. p + k \<le> 16 \<longrightarrow> field p k v5 = field p k (v4)"
    "drop 44 v5 = drop 44 (v4)"
    by (auto simp: a4(2))
  have "20 + 2 \<le> length (v5)"
    by (simp add: a5(2) len_def)
  from setUint16_Some [OF this, of "1"] obtain v6 where a6:
    "setUint16 1 (20, v5) = Some (22, v6)" "length v6 = len"
    "field 20 2 v6 = le16 (word_of_nat 1)"
    "\<forall>p k. p + k \<le> 20 \<longrightarrow> field p k v6 = field p k (v5)"
    "drop 44 v6 = drop 44 (v5)"
    by (auto simp: a5(2))
  have "22 + 2 \<le> length (v6)"
    by (simp add: a6(2) len_def)
  from setUint16_Some [OF this, of "numOfChan"] obtain v7 where a7:
    "setUint16 numOfChan (22, v6) = Some (24, v7)" "length v7 = len"
    "field 22 2 v7 = le16 (word_of_nat numOfChan)"
    "\<forall>p k. p + k \<le> 22 \<longrightarrow> field p k v7 = field p k (v6)"
    "drop 44 v7 = drop 44 (v6)"
    by (auto simp: a6(2))
  have "24 + 4 \<le> length (v7)"
    by (simp add: a7(2) len_def)
  from setUint32_Some [OF this, of "(sampleRate abuffer)"] obtain v8 where a8:
    "setUint32 (sampleRate abuffer) (24, v7) = Some (28, v8)" "length v8 = len"
    "field 24 4 v8 = le32 (word_of_nat (sampleRate abuffer))"
    "\<forall>p k. p + k \<le> 24 \<longrightarrow> field p k v8 = field p k (v7)"
    "drop 44 v8 = drop 44 (v7)"
    by (auto simp: a7(2))
  have "28 + 4 \<le> length (v8)"
    by (simp add: a8(2) len_def)
  from setUint32_Some [OF this, of "(sampleRate abuffer * 2 * numOfChan)"] obtain v9 where a9:
    "setUint32 (sampleRate abuffer * 2 * numOfChan) (28, v8) = Some (32, v9)" "length v9 = len"
    "field 28 4 v9 = le32 (word_of_nat (sampleRate abuffer * 2 * numOfChan))"
    "\<forall>p k. p + k \<le> 28 \<longrightarrow> field p k v9 = field p k (v8)"
    "drop 44 v9 = drop 44 (v8)"
    by (auto simp: a8(2))
  have "32 + 2 \<le> length (v9)"
    by (simp add: a9(2) len_def)
  from setUint16_Some [OF this, of "(numOfChan * 2)"] obtain v10 where a10:
    "setUint16 (numOfChan * 2) (32, v9) = Some (34, v10)" "length v10 = len"
    "field 32 2 v10 = le16 (word_of_nat (numOfChan * 2))"
    "\<forall>p k. p + k \<le> 32 \<longrightarrow> field p k v10 = field p k (v9)"
    "drop 44 v10 = drop 44 (v9)"
    by (auto simp: a9(2))
  have "34 + 2 \<le> length (v10)"
    by (simp add: a10(2) len_def)
  from setUint16_Some [OF this, of "16"] obtain v11 where a11:
    "setUint16 16 (34, v10) = Some (36, v11)" "length v11 = len"
    "field 34 2 v11 = le16 (word_of_nat 16)"
    "\<forall>p k. p + k \<le> 34 \<longrightarrow> field p k v11 = field p k (v10)"
    "drop 44 v11 = drop 44 (v10)"
    by (auto simp: a10(2))
  have "36 + 4 \<le> length (v11)"
    by (simp add: a11(2) len_def)
  from setUint32_Some [OF this, of "0x61746164"] obtain v12 where a12:
    "setUint32 0x61746164 (36, v11) = Some (40, v12)" "length v12 = len"
    "field 36 4 v12 = le32 (word_of_nat 0x61746164)"
    "\<forall>p k. p + k \<le> 36 \<longrightarrow> field p k v12 = field p k (v11)"
    "drop 44 v12 = drop 44 (v11)"
    by (auto simp: a11(2))
  have "40 + 4 \<le> length (v12)"
    by (simp add: a12(2) len_def)
  from setUint32_Some [OF this, of "(len - 40 - 4)"] obtain v13 where a13:
    "setUint32 (len - 40 - 4) (40, v12) = Some (44, v13)" "length v13 = len"
    "field 40 4 v13 = le32 (word_of_nat (len - 40 - 4))"
    "\<forall>p k. p + k \<le> 40 \<longrightarrow> field p k v13 = field p k (v12)"
    "drop 44 v13 = drop 44 (v12)"
    by (auto simp: a12(2))
  have chain: "(Some (0, replicate len 0)
           \<bind> setUint32 0x46464952
           \<bind> setUint32 (len - 8)
           \<bind> setUint32 0x45564157
           \<bind> setUint32 0x20746d66
           \<bind> setUint32 16
           \<bind> setUint16 1
           \<bind> setUint16 numOfChan
           \<bind> setUint32 (sampleRate abuffer)
           \<bind> setUint32 (sampleRate abuffer * 2 * numOfChan)
           \<bind> setUint16 (numOfChan * 2)
           \<bind> setUint16 16
           \<bind> setUint32 0x61746164
           \<bind> (\<lambda>(pos, view). setUint32 (len - pos - 4) (pos, view))) = Some (44, v13)"
    by (simp only: Option.bind.simps prod.case
          a1(1) a2(1) a3(1) a4(1) a5(1) a6(1) a7(1) a8(1) a9(1) a10(1) a11(1) a12(1) a13(1))
  have f20: "field 20 2 v13 = le16 (word_of_nat 1)"
    using a6(3) a7(4) a8(4) a9(4) a10(4) a11(4) a12(4) a13(4) by simp
  have f22: "field 22 2 v13 = le16 (word_of_nat numOfChan)"
    using a7(3) a8(4) a9(4) a10(4) a11(4) a12(4) a13(4) by simp
  have f24: "field 24 4 v13 = le32 (word_of_nat (sampleRate abuffer))"
    using a8(3) a9(4) a10(4) a11(4) a12(4) a13(4) by simp
  have f34: "field 34 2 v13 = le16 (word_of_nat 16)"
    using a11(3) a12(4) a13(4) by simp
  have f40: "field 40 4 v13 = le32 (word_of_nat (len - 44))"
    using a13(3) by simp
  have tail: "drop 44 v13 = replicate (len - 44) 0"
    by (simp add: a1(5) a2(5) a3(5) a4(5) a5(5) a6(5) a7(5) a8(5) a9(5) a10(5) a11(5) a12(5) a13(5))
  show ?thesis
    using chain a13(2) f20 f22 f24 f34 f40 tail by blast
qed

lemma unat_word16: "n < 65536 \<Longrightarrow> unat (word_of_nat n :: 16 word) = n"
  by (simp add: unat_of_nat)

lemma unat_word32: "n < 4294967296 \<Longrightarrow> unat (word_of_nat n :: 32 word) = n"
  by (simp add: unat_of_nat)

text \<open>
  The sample loop of \<open>bufferToWav\<close> tests \<open>pos < abuffer.length\<close> on the variable that the
  header helpers advanced, so it starts at frame 44: frame \<open>p \<ge> 44\<close> is stored where frame
  \<open>p - 44\<close> belongs, frames 0 to 43 are never read, and the end of the data chunk keeps the
  zeros of the fresh \<open>ArrayBuffer\<close>.
\<close>

lemma bufferToWav_Some:
  "\<exists>bytes. bufferToWav abuffer = Some bytes
     \<and> length bytes = 44 + 2 * numberOfChannels abuffer * bufferLength abuffer
     \<and> field 20 2 bytes = le16 (word_of_nat 1)
     \<and> field 22 2 bytes = le16 (word_of_nat (numberOfChannels abuffer))
     \<and> field 24 4 bytes = le32 (word_of_nat (sampleRate abuffer))
     \<and> field 34 2 bytes = le16 (word_of_nat 16)
     \<and> field 40 4 bytes = le32 (word_of_nat (2 * numberOfChannels abuffer * bufferLength abuffer))
     \<and> (\<forall>p i. 44 \<le> p \<and> p < bufferLength abuffer \<and> i < numberOfChannels abuffer \<longrightarrow>
           field (44 + 2 * ((p - 44) * numberOfChannels abuffer + i)) 2 bytes
             = le16 (word_of_int (pcmSample (channelData abuffer ! i ! p))))
     \<and> drop (44 + 2 * numberOfChannels abuffer * (bufferLength abuffer - 44)) bytes
           = replicate (2 * numberOfChannels abuffer * min 44 (bufferLength abuffer)) 0"
proof -
  let ?ch = "numberOfChannels abuffer"
  let ?len = "bufferLength abuffer * ?ch * 2 + 44"
  from wav_header [of abuffer] obtain v where v:
    "(Some (0, replicate ?len 0)
           \<bind> setUint32 0x46464952
           \<bind> setUint32 (?len - 8)
           \<bind> setUint32 0x45564157
           \<bind> setUint32 0x20746d66
           \<bind> setUint32 16
           \<bind> setUint16 1
           \<bind> setUint16 ?ch
           \<bind> setUint32 (sampleRate abuffer)
           \<bind> setUint32 (sampleRate abuffer * 2 * ?ch)
           \<bind> setUint16 (?ch * 2)
           \<bind> setUint16 16
           \<bind> setUint32 0x61746164
           \<bind> (\<lambda>(pos, view). setUint32 (?len - pos - 4) (pos, view))) = Some (44, v)"
    "length v = ?len"
    "field 20 2 v = le16 (word_of_nat 1)"
    "field 22 2 v = le16 (word_of_nat ?ch)"
    "field 24 4 v = le32 (word_of_nat (sampleRate abuffer))"
    "field 34 2 v = le16 (word_of_nat 16)"
    "field 40 4 v = le32 (word_of_nat (?len - 44))"
    "drop 44 v = replicate (?len - 44) 0"
    by blast
  have "44 + 0 + 2 * ?ch * (bufferLength abuffer - 44) \<le> length v"
    unfolding v(2) by (simp add: algebra_simps diff_mult_distrib2)
  from writeFrames_Some [OF this] obtain bytes where b:
    "writeFrames abuffer 44 0 v = Some bytes" "length bytes = length v"
    "\<forall>p k. p + k \<le> 44 \<longrightarrow> field p k bytes = field p k v"
    by blast
  have w: "bufferToWav abuffer = Some bytes"
    unfolding bufferToWav_def Let_def v(1) by (simp add: b(1))
  have e: "?len - 44 = 2 * ?ch * bufferLength abuffer" by simp
  note lay = writeFrames_layout [OF b(1)]
  have samples: "field (44 + 2 * ((p - 44) * ?ch + i)) 2 bytes
                   = le16 (word_of_int (pcmSample (channelData abuffer ! i ! p)))"
    if "44 \<le> p \<and> p < bufferLength abuffer \<and> i < ?ch" for p i
    using lay that by simp
  let ?q = "44 + 2 * ?ch * (bufferLength abuffer - 44)"
  have "drop ?q bytes = drop ?q v"
    using lay by simp
  also have "\<dots> = drop (2 * ?ch * (bufferLength abuffer - 44)) (drop 44 v)"
    by (simp add: add.commute)
  also have "\<dots> = replicate (2 * ?ch * bufferLength abuffer - 2 * ?ch * (bufferLength abuffer - 44)) 0"
    unfolding v(8) e by simp
  also have "2 * ?ch * bufferLength abuffer - 2 * ?ch * (bufferLength abuffer - 44)
               = 2 * ?ch * min 44 (bufferLength abuffer)"
    by (simp add: min_def diff_mult_distrib2 [symmetric])
  finally have tail: "drop ?q bytes = replicate (2 * ?ch * min 44 (bufferLength abuffer)) 0" .
  show ?thesis
    using w b(2,3) v(2-7) samples tail unfolding e by (simp add: mult.commute mult.left_commute)
qed

lemma toInt32_small: "- 32768 \<le> k \<Longrightarrow> k \<le> 32767 \<Longrightarrow> toInt32 (of_int k) = k"
  by (simp add: toInt32_def sint32_id)

lemma pcm_examples:
  "pcmSample (1 / 2) = 16383" "pcmSample (- (1 / 2)) = - 16383" "pcmSample 2 = 32767"
  "pcmSample (- (3 / 4)) = - 24576" "pcmSample 1 = 32767"
proof -
  have t: "toInt32 (32767 / 2) = 16383" "toInt32 (- (32767 / 2)) = - 16383"
    by (simp_all add: toInt32_def sint32_id)
  have i: "toInt32 32767 = 32767" "toInt32 (- 24576) = - 24576"
    using toInt32_small [of 32767] toInt32_small [of "- 24576"] by simp_all
  show "pcmSample (1 / 2) = 16383"
    by (simp add: pcmSample_def clampSample_def Let_def) (simp add: fl_eval t)
  show "pcmSample (- (1 / 2)) = - 16383"
    by (simp add: pcmSample_def clampSample_def Let_def) (simp add: fl_eval t)
  show "pcmSample 2 = 32767"
    by (simp add: pcmSample_def clampSample_def Let_def) (simp add: fl_eval i)
  show "pcmSample 1 = 32767"
    by (simp add: pcmSample_def clampSample_def Let_def) (simp add: fl_eval i)
  show "pcmSample (- (3 / 4)) = - 24576"
    by (simp add: pcmSample_def clampSample_def Let_def) (simp add: fl_eval i)
qed

text \<open>
  C8. For every buffer \<open>bufferToWav\<close> returns a byte sequence of length
  \<open>44 + 2 * numberOfChannels * length\<close>. Read back little-endian, its header holds format
  tag 1 at byte 20, 16 bits per sample at byte 34, the channel count at byte 22, the sample
  rate at byte 24 and the data-chunk length \<open>2 * numberOfChannels * length\<close> at byte 40,
  each value being exact when it fits the 16 or 32 bits of its field. A sample that is
  converted is clamped to \<open>[-1, 1]\<close> before it is scaled and truncated, the integer so
  computed lies in \<open>[-32768, 32767]\<close>, and storing it as a 16-bit integer keeps its value.
  But the samples converted are those of the frames from index 44 on: the sample of frame
  \<open>p \<ge> 44\<close> and channel \<open>i\<close> is stored in the data chunk where the sample of frame
  \<open>p - 44\<close> belongs, the samples of frames 0 to 43 are stored nowhere, and the last 44
  frames of the data chunk (all of it, for a buffer of at most 44 frames) are zero.
\<close>

theorem bufferToWav_header_and_samples:
  "(\<exists>bytes. bufferToWav abuffer = Some bytes
      \<and> length bytes = 44 + 2 * numberOfChannels abuffer * bufferLength abuffer
      \<and> u16le (field 20 2 bytes) = 1
      \<and> u16le (field 34 2 bytes) = 16
      \<and> (numberOfChannels abuffer < 65536 \<longrightarrow>
            u16le (field 22 2 bytes) = numberOfChannels abuffer)
      \<and> (sampleRate abuffer < 4294967296 \<longrightarrow>
            u32le (field 24 4 bytes) = sampleRate abuffer)
      \<and> (2 * numberOfChannels abuffer * bufferLength abuffer < 4294967296 \<longrightarrow>
            u32le (field 40 4 bytes) = 2 * numberOfChannels abuffer * bufferLength abuffer)
      \<and> (\<forall>p i. 44 \<le> p \<and> p < bufferLength abuffer \<and> i < numberOfChannels abuffer \<longrightarrow>
            field (44 + 2 * ((p - 44) * numberOfChannels abuffer + i)) 2 bytes
              = le16 (word_of_int (pcmSample (channelData abuffer ! i ! p))))
      \<and> drop (44 + 2 * numberOfChannels abuffer * (bufferLength abuffer - 44)) bytes
            = replicate (2 * numberOfChannels abuffer * min 44 (bufferLength abuffer)) 0)
   \<and> - 1 \<le> clampSample x \<and> clampSample x \<le> 1
   \<and> pcmSample x = toInt32 (if fl (fl (1 / 2) + clampSample x) < 0 then fl (clampSample x * 32768)
                              else fl (clampSample x * 32767))
   \<and> - 32768 \<le> pcmSample x \<and> pcmSample x \<le> 32767
   \<and> sint (word_of_int (pcmSample x) :: 16 word) = pcmSample x"
proof -
  from bufferToWav_Some [of abuffer] obtain bytes where b:
    "bufferToWav abuffer = Some bytes"
    "length bytes = 44 + 2 * numberOfChannels abuffer * bufferLength abuffer"
    "field 20 2 bytes = le16 (word_of_nat 1)"
    "field 22 2 bytes = le16 (word_of_nat (numberOfChannels abuffer))"
    "field 24 4 bytes = le32 (word_of_nat (sampleRate abuffer))"
    "field 34 2 bytes = le16 (word_of_nat 16)"
    "field 40 4 bytes = le32 (word_of_nat (2 * numberOfChannels abuffer * bufferLength abuffer))"
    and lay: "\<forall>p i. 44 \<le> p \<and> p < bufferLength abuffer \<and> i < numberOfChannels abuffer \<longrightarrow>
            field (44 + 2 * ((p - 44) * numberOfChannels abuffer + i)) 2 bytes
              = le16 (word_of_int (pcmSample (channelData abuffer ! i ! p)))"
    and tail: "drop (44 + 2 * numberOfChannels abuffer * (bufferLength abuffer - 44)) bytes
            = replicate (2 * numberOfChannels abuffer * min 44 (bufferLength abuffer)) 0"
    by blast
  have f1: "u16le (field 20 2 bytes) = 1" "u16le (field 34 2 bytes) = 16"
    by (simp_all add: b u16le_le16)
  have f2: "u16le (field 22 2 bytes) = numberOfChannels abuffer"
    if "numberOfChannels abuffer < 65536"
    unfolding b u16le_le16 using that by (rule unat_word16)
  have f3: "u32le (field 24 4 bytes) = sampleRate abuffer"
    if "sampleRate abuffer < 4294967296"
    unfolding b u32le_le32 using that by (rule unat_word32)
  have f4: "u32le (field 40 4 bytes) = 2 * numberOfChannels abuffer * bufferLength abuffer"
    if "2 * numberOfChannels abuffer * bufferLength abuffer < 4294967296"
    unfolding b u32le_le32 using that by (rule unat_word32)
  have s: "pcmSample x = toInt32 (if fl (fl (1 / 2) + clampSample x) < 0 then fl (clampSample x * 32768)
                              else fl (clampSample x * 32767))"
    by (simp add: pcmSample_def Let_def)
  have hdr: "\<exists>bytes. bufferToWav abuffer = Some bytes
      \<and> length bytes = 44 + 2 * numberOfChannels abuffer * bufferLength abuffer
      \<and> u16le (field 20 2 bytes) = 1
      \<and> u16le (field 34 2 bytes) = 16
      \<and> (numberOfChannels abuffer < 65536 \<longrightarrow>
            u16le (field 22 2 bytes) = numberOfChannels abuffer)
      \<and> (sampleRate abuffer < 4294967296 \<longrightarrow>
            u32le (field 24 4 bytes) = sampleRate abuffer)
      \<and> (2 * numberOfChannels abuffer * bufferLength abuffer < 4294967296 \<longrightarrow>
            u32le (field 40 4 bytes) = 2 * numberOfChannels abuffer * bufferLength abuffer)
      \<and> (\<forall>p i. 44 \<le> p \<and> p < bufferLength abuffer \<and> i < numberOfChannels abuffer \<longrightarrow>
            field (44 + 2 * ((p - 44) * numberOfChannels abuffer + i)) 2 bytes
              = le16 (word_of_int (pcmSample (channelData abuffer ! i ! p))))
      \<and> drop (44 + 2 * numberOfChannels abuffer * (bufferLength abuffer - 44)) bytes
            = replicate (2 * numberOfChannels abuffer * min 44 (bufferLength abuffer)) 0"
    using b(1,2) f1 f2 f3 f4 lay tail by blast
  show ?thesis
    using hdr clampSample_range [of x] pcmSample_range [of x] pcmSample_stored [of x] s
    by (simp only: simp_thms)
qed

theorem bufferToWav_header_and_samples_witness:
  "numberOfChannels wavBuffer < 65536 \<and> sampleRate wavBuffer < 4294967296
   \<and> 2 * numberOfChannels wavBuffer * bufferLength wavBuffer < 4294967296
   \<and> length (the (bufferToWav wavBuffer)) = 228
   \<and> u16le (field 22 2 (the (bufferToWav wavBuffer))) = 2
   \<and> u32le (field 24 4 (the (bufferToWav wavBuffer))) = 44100
   \<and> u32le (field 40 4 (the (bufferToWav wavBuffer))) = 184
   \<and> (44 :: nat) \<le> 44 \<and> 44 < bufferLength wavBuffer \<and> 0 < numberOfChannels wavBuffer
   \<and> (44 :: nat) \<le> 45 \<and> 45 < bufferLength wavBuffer \<and> 1 < numberOfChannels wavBuffer
   \<and> field 44 2 (the (bufferToWav wavBuffer)) = le16 (word_of_int (- 16383))
   \<and> field 50 2 (the (bufferToWav wavBuffer)) = le16 (word_of_int (- 24576))
   \<and> channelData wavBuffer ! 0 ! 0 = 1 / 2 \<and> pcmSample (1 / 2) = 16383
   \<and> channelData wavBuffer ! 0 ! 44 = - (1 / 2) \<and> pcmSample (- (1 / 2)) = - 16383
   \<and> drop 52 (the (bufferToWav wavBuffer)) = replicate 176 0
   \<and> pcmSample 2 \<le> 32767"
proof -
  have h: "numberOfChannels wavBuffer < 65536" "sampleRate wavBuffer < 4294967296"
    "2 * numberOfChannels wavBuffer * bufferLength wavBuffer < 4294967296"
    by (simp_all add: wavBuffer_def)
  have i1: "(44 :: nat) \<le> 44 \<and> 44 < bufferLength wavBuffer \<and> 0 < numberOfChannels wavBuffer"
    and i2: "(44 :: nat) \<le> 45 \<and> 45 < bufferLength wavBuffer \<and> 1 < numberOfChannels wavBuffer"
    by (simp_all add: wavBuffer_def)
  have c: "channelData wavBuffer ! 0 ! 0 = 1 / 2" "channelData wavBuffer ! 0 ! 44 = - (1 / 2)"
    "channelData wavBuffer ! 1 ! 45 = - (3 / 4)"
    by (simp_all add: wavBuffer_def nth_append)
  from bufferToWav_header_and_samples [of wavBuffer 2]
  obtain bytes where b: "bufferToWav wavBuffer = Some bytes"
    "length bytes = 44 + 2 * numberOfChannels wavBuffer * bufferLength wavBuffer"
    "numberOfChannels wavBuffer < 65536 \<longrightarrow> u16le (field 22 2 bytes) = numberOfChannels wavBuffer"
    "sampleRate wavBuffer < 4294967296 \<longrightarrow> u32le (field 24 4 bytes) = sampleRate wavBuffer"
    "2 * numberOfChannels wavBuffer * bufferLength wavBuffer < 4294967296 \<longrightarrow>
       u32le (field 40 4 bytes) = 2 * numberOfChannels wavBuffer * bufferLength wavBuffer"
    and lay: "\<forall>p i. 44 \<le> p \<and> p < bufferLength wavBuffer \<and> i < numberOfChannels wavBuffer \<longrightarrow>
            field (44 + 2 * ((p - 44) * numberOfChannels wavBuffer + i)) 2 bytes
              = le16 (word_of_int (pcmSample (channelData wavBuffer ! i ! p)))"
    and tail: "drop (44 + 2 * numberOfChannels wavBuffer * (bufferLength wavBuffer - 44)) bytes
            = replicate (2 * numberOfChannels wavBuffer * min 44 (bufferLength wavBuffer)) 0"
    and p: "pcmSample 2 \<le> 32767"
    by blast
  have t: "the (bufferToWav wavBuffer) = bytes" by (simp add: b(1))
  have nc: "numberOfChannels wavBuffer = 2" by (simp add: wavBuffer_def)
  have l: "length bytes = 228" using b(2) by (simp add: wavBuffer_def)
  have f22: "u16le (field 22 2 bytes) = 2" using b(3) h(1) by (simp add: wavBuffer_def)
  have f24: "u32le (field 24 4 bytes) = 44100" using b(4) h(2) by (simp add: wavBuffer_def)
  have f40: "u32le (field 40 4 bytes) = 184" using b(5) h(3) by (simp add: wavBuffer_def)
  have x1: "44 + 2 * ((44 - 44) * numberOfChannels wavBuffer + 0) = 44"
    and x2: "44 + 2 * ((45 - 44) * numberOfChannels wavBuffer + 1) = 50"
    by (simp_all add: nc)
  have "field (44 + 2 * ((44 - 44) * numberOfChannels wavBuffer + 0)) 2 bytes
          = le16 (word_of_int (pcmSample (channelData wavBuffer ! 0 ! 44)))"
    using lay [rule_format, of 44 0] i1 by blast
  then have s1: "field 44 2 bytes = le16 (word_of_int (- 16383))"
    unfolding x1 c(2) pcm_examples(2) .
  have "field (44 + 2 * ((45 - 44) * numberOfChannels wavBuffer + 1)) 2 bytes
          = le16 (word_of_int (pcmSample (channelData wavBuffer ! 1 ! 45)))"
    using lay [rule_format, of 45 1] i2 by blast
  then have s2: "field 50 2 bytes = le16 (word_of_int (- 24576))"
    unfolding x2 c(3) pcm_examples(4) .
  have z: "drop 52 bytes = replicate 176 0"
    using tail by (simp add: wavBuffer_def)
  show ?thesis
    unfolding t
    by (intro conjI h l f22 f24 f40 i1 [THEN conjunct1] i1 [THEN conjunct2, THEN conjunct1]
          i1 [THEN conjunct2, THEN conjunct2] i2 [THEN conjunct1] i2 [THEN conjunct2, THEN conjunct1]
          i2 [THEN conjunct2, THEN conjunct2] s1 s2 c(1) c(2) pcm_examples(1) pcm_examples(2) z p)
qed

end
